theory Spec2Isabelle
  imports Main "HOL-Library.Word"
begin

section \<open>Bytes, strings and errors\<close>

text \<open>
  A Go \<^verbatim>\<open>[]byte\<close> is a list of 8-bit words; a Go \<^verbatim>\<open>string\<close> is a list of
  8-bit characters. The conversions \<^verbatim>\<open>[]byte(s)\<close> and \<^verbatim>\<open>string(b)\<close> copy the bytes
  one for one.
\<close>

type_synonym byte = "8 word"

definition bytes_of_string :: "string \<Rightarrow> byte list" where
  "bytes_of_string s = map (\<lambda>c. of_nat (of_char c)) s"

definition string_of_bytes :: "byte list \<Rightarrow> string" where
  "string_of_bytes bs = map (\<lambda>b. char_of (unat b)) bs"

text \<open>
  The package's sentinel errors (the \<^verbatim>\<open>var (...)\<close> block of the source), and the
  error value \<^verbatim>\<open>aes.KeySizeError(k)\<close> that \<^verbatim>\<open>aes.NewCipher\<close> returns for a key of
  \<open>k\<close> bytes when \<open>k\<close> is not 16, 24 or 32.
\<close>

datatype error =
    ErrMissingKey
  | ErrInvalidKeyLength
  | ErrEncryptionFailed
  | ErrDecryptionFailed
  | ErrInvalidData
  | KeySizeError nat

section \<open>The collaborators from Go's standard library\<close>

subsection \<open>cipher.AEAD\<close>

text \<open>
  \<^verbatim>\<open>Service.gcm\<close> has the interface type \<^verbatim>\<open>cipher.AEAD\<close>. An implementation is given
  by its nonce size and its two operations on (nonce, text, additional data);
  \<^verbatim>\<open>Seal\<close> and \<^verbatim>\<open>Open\<close> append their result to the slice \<^verbatim>\<open>dst\<close>, as the interface
  documents, and \<^verbatim>\<open>Open\<close> fails (here: \<open>None\<close>) when authentication fails.
\<close>

record AEAD =
  aead_nonce_size :: nat
  aead_seal :: "byte list \<Rightarrow> byte list \<Rightarrow> byte list \<Rightarrow> byte list"
  aead_open :: "byte list \<Rightarrow> byte list \<Rightarrow> byte list \<Rightarrow> byte list option"

definition NonceSize :: "AEAD \<Rightarrow> nat" where
  "NonceSize a = aead_nonce_size a"

definition Seal :: "AEAD \<Rightarrow> byte list \<Rightarrow> byte list \<Rightarrow> byte list \<Rightarrow> byte list \<Rightarrow> byte list" where
  "Seal a dst nonce plaintext additionalData = dst @ aead_seal a nonce plaintext additionalData"

definition Open :: "AEAD \<Rightarrow> byte list \<Rightarrow> byte list \<Rightarrow> byte list \<Rightarrow> byte list \<Rightarrow> byte list option" where
  "Open a dst nonce ciphertext additionalData =
     (case aead_open a nonce ciphertext additionalData of
        None \<Rightarrow> None
      | Some plaintext \<Rightarrow> Some (dst @ plaintext))"

text \<open>
  The contract of an AEAD that the round trip relies on: opening what was sealed
  under the same nonce (of the required size) and the same additional data gives the
  plaintext back; the nonce is not empty (12 bytes for GCM).
\<close>

definition aead_contract :: "AEAD \<Rightarrow> bool" where
  "aead_contract a \<longleftrightarrow>
     0 < aead_nonce_size a \<and>
     (\<forall>nonce plaintext ad. length nonce = aead_nonce_size a \<longrightarrow>
        aead_open a nonce (aead_seal a nonce plaintext ad) ad = Some plaintext)"

subsection \<open>crypto/rand and io.ReadFull\<close>

text \<open>
  The state of \<^verbatim>\<open>rand.Reader\<close> is the sequence of bytes it will still deliver.
  \<^verbatim>\<open>io.ReadFull(rand.Reader, buf)\<close> fills \<^verbatim>\<open>buf\<close> with the next \<^verbatim>\<open>len(buf)\<close> bytes,
  or fails when the reader delivers fewer (having consumed what there was).
\<close>

type_synonym reader = "byte list"

definition io_ReadFull :: "reader \<Rightarrow> nat \<Rightarrow> byte list option \<times> reader" where
  "io_ReadFull r n = (if n \<le> length r then (Some (take n r), drop n r) else (None, []))"

subsection \<open>encoding/base64, StdEncoding\<close>

text \<open>
  The standard alphabet of RFC 4648 with \<^verbatim>\<open>=\<close> padding. \<^verbatim>\<open>EncodeToString\<close> maps each
  group of three bytes to four characters and pads the last group. \<^verbatim>\<open>DecodeString\<close>
  ignores carriage returns and line feeds, and otherwise accepts exactly the padded
  groups of four characters of the alphabet, padding only at the very end; unused low
  bits of a padded group are not checked (the encoding is not \<^verbatim>\<open>Strict\<close>).
\<close>

definition encodeStd :: string where
  "encodeStd = ''ABCDEFGHIJKLMNOPQRSTUVWXYZabcdefghijklmnopqrstuvwxyz0123456789+/''"

definition enc_char :: "nat \<Rightarrow> char" where
  "enc_char k = encodeStd ! (k mod 64)"

fun index_of :: "'a \<Rightarrow> 'a list \<Rightarrow> nat option" where
  "index_of x [] = None"
| "index_of x (y # ys) =
     (if x = y then Some 0
      else (case index_of x ys of None \<Rightarrow> None | Some i \<Rightarrow> Some (Suc i)))"

definition decodeMap :: "char \<Rightarrow> nat option" where
  "decodeMap c = index_of c encodeStd"

definition padChar :: char where
  "padChar = CHR ''=''"

fun base64_EncodeToString :: "byte list \<Rightarrow> string" where
  "base64_EncodeToString [] = []"
| "base64_EncodeToString [a] =
     (let val = unat a * 65536
      in [enc_char (val div 262144), enc_char (val div 4096), padChar, padChar])"
| "base64_EncodeToString [a, b] =
     (let val = unat a * 65536 + unat b * 256
      in [enc_char (val div 262144), enc_char (val div 4096), enc_char (val div 64), padChar])"
| "base64_EncodeToString (a # b # c # src) =
     (let val = unat a * 65536 + unat b * 256 + unat c
      in enc_char (val div 262144) # enc_char (val div 4096) # enc_char (val div 64) #
         enc_char val # base64_EncodeToString src)"

fun decode_quanta :: "string \<Rightarrow> byte list option" where
  "decode_quanta [] = Some []"
| "decode_quanta (c0 # c1 # c2 # c3 # src) =
     (case decodeMap c0 of None \<Rightarrow> None | Some x \<Rightarrow>
      case decodeMap c1 of None \<Rightarrow> None | Some y \<Rightarrow>
        if c2 = padChar then
          (if c3 = padChar \<and> src = []
           then Some [of_nat ((x * 262144 + y * 4096) div 65536)]
           else None)
        else
          (case decodeMap c2 of None \<Rightarrow> None | Some z \<Rightarrow>
             if c3 = padChar then
               (if src = []
                then (let val = x * 262144 + y * 4096 + z * 64
                      in Some [of_nat (val div 65536), of_nat (val div 256)])
                else None)
             else
               (case decodeMap c3 of None \<Rightarrow> None | Some w \<Rightarrow>
                  case decode_quanta src of None \<Rightarrow> None | Some rest \<Rightarrow>
                    (let val = x * 262144 + y * 4096 + z * 64 + w
                     in Some (of_nat (val div 65536) # of_nat (val div 256) #
                              of_nat val # rest)))))"
| "decode_quanta _ = None"

definition base64_DecodeString :: "string \<Rightarrow> byte list option" where
  "base64_DecodeString s =
     decode_quanta (filter (\<lambda>c. c \<noteq> CHR 0x0A \<and> c \<noteq> CHR 0x0D) s)"

section \<open>The cipher core: encrypt\_func.go, first part\<close>

record Service =
  gcm :: AEAD

text \<open>
  \<^verbatim>\<open>aes.NewCipher(key)\<close> checks the key length and nothing else; \<^verbatim>\<open>cipher.NewGCM\<close>
  accepts every AES block cipher. The AEAD that the two build from a valid key is the
  parameter \<open>aes_gcm\<close>.
\<close>

definition aes_NewCipher :: "byte list \<Rightarrow> error + byte list" where
  "aes_NewCipher key =
     (if length key = 16 \<or> length key = 24 \<or> length key = 32 then Inr key
      else Inl (KeySizeError (length key)))"

definition cipher_NewGCM :: "(byte list \<Rightarrow> AEAD) \<Rightarrow> byte list \<Rightarrow> error + AEAD" where
  "cipher_NewGCM aes_gcm block = Inr (aes_gcm block)"

definition NewService :: "(byte list \<Rightarrow> AEAD) \<Rightarrow> byte list \<Rightarrow> error + Service" where
  "NewService aes_gcm key =
     (case aes_NewCipher key of
        Inl err \<Rightarrow> Inl err
      | Inr block \<Rightarrow>
          (case cipher_NewGCM aes_gcm block of
             Inl err \<Rightarrow> Inl err
           | Inr g \<Rightarrow> Inr \<lparr>gcm = g\<rparr>))"

definition Encrypt :: "Service \<Rightarrow> reader \<Rightarrow> string \<Rightarrow> (error + string) \<times> reader" where
  "Encrypt s r plaintext =
     (if plaintext = [] then (Inr [], r)
      else
        (case io_ReadFull r (NonceSize (gcm s)) of
           (None, r') \<Rightarrow> (Inl ErrEncryptionFailed, r')
         | (Some nonce, r') \<Rightarrow>
             (let ciphertext = Seal (gcm s) nonce nonce (bytes_of_string plaintext) []
              in (Inr (base64_EncodeToString ciphertext), r'))))"

definition Decrypt :: "Service \<Rightarrow> string \<Rightarrow> error + string" where
  "Decrypt s ciphertext =
     (if ciphertext = [] then Inr []
      else
        (case base64_DecodeString ciphertext of
           None \<Rightarrow> Inl ErrInvalidData
         | Some data \<Rightarrow>
             (let nonceSize = NonceSize (gcm s)
              in if length data < nonceSize then Inl ErrInvalidData
                 else
                   (case Open (gcm s) [] (take nonceSize data) (drop nonceSize data) [] of
                      None \<Rightarrow> Inl ErrDecryptionFailed
                    | Some plaintext \<Rightarrow> Inr (string_of_bytes plaintext)))))"

definition EncryptBytes :: "Service \<Rightarrow> reader \<Rightarrow> byte list \<Rightarrow> (error + byte list) \<times> reader" where
  "EncryptBytes s r plaintext =
     (if length plaintext = 0 then (Inr [], r)
      else
        (case io_ReadFull r (NonceSize (gcm s)) of
           (None, r') \<Rightarrow> (Inl ErrEncryptionFailed, r')
         | (Some nonce, r') \<Rightarrow> (Inr (Seal (gcm s) nonce nonce plaintext []), r')))"

definition DecryptBytes :: "Service \<Rightarrow> byte list \<Rightarrow> error + byte list" where
  "DecryptBytes s ciphertext =
     (if length ciphertext = 0 then Inr []
      else
        (let nonceSize = NonceSize (gcm s)
         in if length ciphertext < nonceSize then Inl ErrInvalidData
            else
              (case Open (gcm s) [] (take nonceSize ciphertext) (drop nonceSize ciphertext) [] of
                 None \<Rightarrow> Inl ErrDecryptionFailed
               | Some plaintext \<Rightarrow> Inr plaintext)))"

section \<open>Go values and the part of package reflect that the transformer uses\<close>

text \<open>
  What an \<^verbatim>\<open>interface{}\<close> argument can hold: the untyped \<^verbatim>\<open>nil\<close>, scalars,
  strings, slices, structs and pointers (\<open>PtrV None\<close> is a typed nil pointer). A struct
  is the list of its fields in declaration order; a field carries its name, its tag
  (the key/value pairs of the conventional tag format) and its value. Struct types
  with embedded fields, whose promoted fields \<^verbatim>\<open>FieldByName\<close> would also search, are
  not part of this model, and a field is exported when its name starts with an ASCII
  capital letter.
\<close>

datatype gvalue =
    NilV
  | BoolV bool
  | IntV int
  | StringV string
  | SliceV "gvalue list"
  | StructV "sfield list"
  | PtrV "gvalue option"
and sfield =
    SField (Name: string) (Tag: "(string \<times> string) list") (Val: gvalue)

datatype kind =
    reflect_Invalid
  | reflect_Bool
  | reflect_Int
  | reflect_String
  | reflect_Slice
  | reflect_Struct
  | reflect_Ptr

text \<open>A call either returns or panics.\<close>

datatype 'a outcome = Return 'a | Panic

text \<open>
  A \<^verbatim>\<open>reflect.Value\<close>: the value it holds (\<open>None\<close> for the zero Value), whether it is
  addressable (\<^verbatim>\<open>flagAddr\<close>: reached through a pointer), whether it was reached through
  an unexported field (\<^verbatim>\<open>flagRO\<close>), and, for a Value obtained from a struct by \<^verbatim>\<open>Field\<close>
  or \<^verbatim>\<open>FieldByName\<close>, the index of the field whose storage it aliases.
\<close>

record Value =
  v_val :: "gvalue option"
  v_addr :: bool
  v_ro :: bool
  v_loc :: "nat option"

definition zero_Value :: Value where
  "zero_Value = \<lparr>v_val = None, v_addr = False, v_ro = False, v_loc = None\<rparr>"

definition reflect_ValueOf :: "gvalue \<Rightarrow> Value" where
  "reflect_ValueOf i =
     (case i of
        NilV \<Rightarrow> zero_Value
      | _ \<Rightarrow> \<lparr>v_val = Some i, v_addr = False, v_ro = False, v_loc = None\<rparr>)"

fun kind_of :: "gvalue \<Rightarrow> kind" where
  "kind_of NilV = reflect_Invalid"
| "kind_of (BoolV b) = reflect_Bool"
| "kind_of (IntV n) = reflect_Int"
| "kind_of (StringV s) = reflect_String"
| "kind_of (SliceV xs) = reflect_Slice"
| "kind_of (StructV fs) = reflect_Struct"
| "kind_of (PtrV p) = reflect_Ptr"

definition Kind :: "Value \<Rightarrow> kind" where
  "Kind v = (case v_val v of None \<Rightarrow> reflect_Invalid | Some g \<Rightarrow> kind_of g)"

definition IsValid :: "Value \<Rightarrow> bool" where
  "IsValid v = (v_val v \<noteq> None)"

definition CanSet :: "Value \<Rightarrow> bool" where
  "CanSet v = (v_addr v \<and> \<not> v_ro v)"

text \<open>\<^verbatim>\<open>Elem\<close> panics on a Value that is neither a pointer nor an interface.\<close>

definition Elem :: "Value \<Rightarrow> Value outcome" where
  "Elem v =
     (case v_val v of
        Some (PtrV None) \<Rightarrow> Return zero_Value
      | Some (PtrV (Some g)) \<Rightarrow>
          Return \<lparr>v_val = Some g, v_addr = True, v_ro = v_ro v, v_loc = None\<rparr>
      | _ \<Rightarrow> Panic)"

definition IsExported :: "string \<Rightarrow> bool" where
  "IsExported name =
     (case name of
        [] \<Rightarrow> False
      | c # _ \<Rightarrow> (65::nat) \<le> of_char c \<and> of_char c \<le> (90::nat))"

text \<open>\<^verbatim>\<open>NumField\<close>, \<^verbatim>\<open>Field\<close> and \<^verbatim>\<open>FieldByName\<close> panic on a Value whose kind is not Struct.\<close>

definition NumField :: "Value \<Rightarrow> nat outcome" where
  "NumField v = (case v_val v of Some (StructV fs) \<Rightarrow> Return (length fs) | _ \<Rightarrow> Panic)"

definition Type_Field :: "Value \<Rightarrow> nat \<Rightarrow> sfield outcome" where
  "Type_Field v i =
     (case v_val v of
        Some (StructV fs) \<Rightarrow> (if i < length fs then Return (fs ! i) else Panic)
      | _ \<Rightarrow> Panic)"

definition Field :: "Value \<Rightarrow> nat \<Rightarrow> Value outcome" where
  "Field v i =
     (case v_val v of
        Some (StructV fs) \<Rightarrow>
          (if i < length fs
           then Return \<lparr>v_val = Some (Val (fs ! i)), v_addr = v_addr v,
                        v_ro = (v_ro v \<or> \<not> IsExported (Name (fs ! i))), v_loc = Some i\<rparr>
           else Panic)
      | _ \<Rightarrow> Panic)"

definition FieldByName :: "Value \<Rightarrow> string \<Rightarrow> Value outcome" where
  "FieldByName v name =
     (case v_val v of
        Some (StructV fs) \<Rightarrow>
          (case index_of name (map Name fs) of
             None \<Rightarrow> Return zero_Value
           | Some i \<Rightarrow> Field v i)
      | _ \<Rightarrow> Panic)"

definition Tag_Get :: "(string \<times> string) list \<Rightarrow> string \<Rightarrow> string" where
  "Tag_Get tag key = (case map_of tag key of None \<Rightarrow> [] | Some v \<Rightarrow> v)"

text \<open>
  \<^verbatim>\<open>Value.String\<close> returns the string of a Value of kind String (for any other kind it
  returns a description of the form \<^verbatim>\<open><T Value>\<close>; the transformer calls it on strings
  only).
\<close>

definition Value_String :: "Value \<Rightarrow> string" where
  "Value_String v = (case v_val v of Some (StringV s) \<Rightarrow> s | _ \<Rightarrow> ''<Value>'')"

text \<open>
  \<^verbatim>\<open>field.SetString(x)\<close> panics unless \<^verbatim>\<open>field\<close> is settable and of kind String. Its
  effect is on the storage that \<^verbatim>\<open>field\<close> aliases: field \<open>v_loc field\<close> of the struct
  that \<open>val\<close> refers to. The result is \<open>val\<close> after the assignment.
\<close>

definition SetString :: "Value \<Rightarrow> Value \<Rightarrow> string \<Rightarrow> Value outcome" where
  "SetString val field x =
     (if \<not> CanSet field \<or> Kind field \<noteq> reflect_String then Panic
      else
        (case (v_val val, v_loc field) of
           (Some (StructV fs), Some i) \<Rightarrow>
             Return (val\<lparr>v_val := Some (StructV (fs[i := SField (Name (fs ! i)) (Tag (fs ! i)) (StringV x)]))\<rparr>)
         | _ \<Rightarrow> Panic))"

text \<open>
  What the caller's argument denotes after the call: the transformer works on the
  pointee of a pointer argument in place, and on a copy of anything else.
\<close>

definition caller_view :: "gvalue \<Rightarrow> Value \<Rightarrow> gvalue" where
  "caller_view v val = (case v of PtrV (Some g) \<Rightarrow> PtrV (v_val val) | _ \<Rightarrow> v)"

section \<open>The record transformer: encrypt\_func.go, second part\<close>

text \<open>
  Each function returns the \<^verbatim>\<open>error\<close> it returns in Go (\<open>None\<close> for \<^verbatim>\<open>nil\<close>) and the
  caller's value after the call (the encrypting ones also the state of the random
  reader), or it panics.
\<close>

function EncryptStruct_loop ::
  "Service \<Rightarrow> Value \<Rightarrow> nat \<Rightarrow> reader \<Rightarrow> (error option \<times> Value \<times> reader) outcome" where
  "EncryptStruct_loop s val i r =
     (case NumField val of
        Panic \<Rightarrow> Panic
      | Return n \<Rightarrow>
          if \<not> i < n then Return (None, val, r)
          else
            (case Field val i of
               Panic \<Rightarrow> Panic
             | Return field \<Rightarrow>
                 (case Type_Field val i of
                    Panic \<Rightarrow> Panic
                  | Return typeField \<Rightarrow>
                      if Tag_Get (Tag typeField) ''encrypt'' \<noteq> ''true''
                      then EncryptStruct_loop s val (i + 1) r
                      else if Kind field \<noteq> reflect_String \<or> \<not> CanSet field
                      then EncryptStruct_loop s val (i + 1) r
                      else if Value_String field = []
                      then EncryptStruct_loop s val (i + 1) r
                      else
                        (case Encrypt s r (Value_String field) of
                           (Inl err, r') \<Rightarrow> Return (Some err, val, r')
                         | (Inr encrypted, r') \<Rightarrow>
                             (case SetString val field encrypted of
                                Panic \<Rightarrow> Panic
                              | Return val' \<Rightarrow> EncryptStruct_loop s val' (i + 1) r')))))"
  by pat_completeness auto
termination
  apply (relation "measure (\<lambda>(s, val, i, r). (case NumField val of Return n \<Rightarrow> n | Panic \<Rightarrow> 0) - i)")
  apply (auto simp: NumField_def SetString_def split: option.splits gvalue.splits if_splits)
  done

definition EncryptStruct ::
  "Service \<Rightarrow> reader \<Rightarrow> gvalue \<Rightarrow> (error option \<times> gvalue \<times> reader) outcome" where
  "EncryptStruct s r v =
     (case (if Kind (reflect_ValueOf v) = reflect_Ptr then Elem (reflect_ValueOf v)
            else Return (reflect_ValueOf v)) of
        Panic \<Rightarrow> Panic
      | Return val \<Rightarrow>
          if Kind val \<noteq> reflect_Struct then Return (None, v, r)
          else
            (case EncryptStruct_loop s val 0 r of
               Panic \<Rightarrow> Panic
             | Return (err, val', r') \<Rightarrow> Return (err, caller_view v val', r')))"

function DecryptStruct_loop ::
  "Service \<Rightarrow> Value \<Rightarrow> nat \<Rightarrow> (error option \<times> Value) outcome" where
  "DecryptStruct_loop s val i =
     (case NumField val of
        Panic \<Rightarrow> Panic
      | Return n \<Rightarrow>
          if \<not> i < n then Return (None, val)
          else
            (case Field val i of
               Panic \<Rightarrow> Panic
             | Return field \<Rightarrow>
                 (case Type_Field val i of
                    Panic \<Rightarrow> Panic
                  | Return typeField \<Rightarrow>
                      if Tag_Get (Tag typeField) ''encrypt'' \<noteq> ''true''
                      then DecryptStruct_loop s val (i + 1)
                      else if Kind field \<noteq> reflect_String \<or> \<not> CanSet field
                      then DecryptStruct_loop s val (i + 1)
                      else if Value_String field = []
                      then DecryptStruct_loop s val (i + 1)
                      else
                        (case Decrypt s (Value_String field) of
                           Inl err \<Rightarrow> Return (Some err, val)
                         | Inr decrypted \<Rightarrow>
                             (case SetString val field decrypted of
                                Panic \<Rightarrow> Panic
                              | Return val' \<Rightarrow> DecryptStruct_loop s val' (i + 1))))))"
  by pat_completeness auto
termination
  apply (relation "measure (\<lambda>(s, val, i). (case NumField val of Return n \<Rightarrow> n | Panic \<Rightarrow> 0) - i)")
  apply (auto simp: NumField_def SetString_def split: option.splits gvalue.splits if_splits)
  done

definition DecryptStruct ::
  "Service \<Rightarrow> gvalue \<Rightarrow> (error option \<times> gvalue) outcome" where
  "DecryptStruct s v =
     (case (if Kind (reflect_ValueOf v) = reflect_Ptr then Elem (reflect_ValueOf v)
            else Return (reflect_ValueOf v)) of
        Panic \<Rightarrow> Panic
      | Return val \<Rightarrow>
          if Kind val \<noteq> reflect_Struct then Return (None, v)
          else
            (case DecryptStruct_loop s val 0 of
               Panic \<Rightarrow> Panic
             | Return (err, val') \<Rightarrow> Return (err, caller_view v val')))"

fun EncryptFields_loop ::
  "Service \<Rightarrow> Value \<Rightarrow> string list \<Rightarrow> reader \<Rightarrow> (error option \<times> Value \<times> reader) outcome" where
  "EncryptFields_loop s val [] r = Return (None, val, r)"
| "EncryptFields_loop s val (fieldName # fieldNames) r =
     (case FieldByName val fieldName of
        Panic \<Rightarrow> Panic
      | Return field \<Rightarrow>
          if \<not> IsValid field \<or> \<not> CanSet field
          then EncryptFields_loop s val fieldNames r
          else if Kind field \<noteq> reflect_String
          then EncryptFields_loop s val fieldNames r
          else if Value_String field = []
          then EncryptFields_loop s val fieldNames r
          else
            (case Encrypt s r (Value_String field) of
               (Inl err, r') \<Rightarrow> Return (Some err, val, r')
             | (Inr encrypted, r') \<Rightarrow>
                 (case SetString val field encrypted of
                    Panic \<Rightarrow> Panic
                  | Return val' \<Rightarrow> EncryptFields_loop s val' fieldNames r')))"

definition EncryptFields ::
  "Service \<Rightarrow> reader \<Rightarrow> gvalue \<Rightarrow> string list \<Rightarrow> (error option \<times> gvalue \<times> reader) outcome" where
  "EncryptFields s r v fieldNames =
     (case (if Kind (reflect_ValueOf v) = reflect_Ptr then Elem (reflect_ValueOf v)
            else Return (reflect_ValueOf v)) of
        Panic \<Rightarrow> Panic
      | Return val \<Rightarrow>
          (case EncryptFields_loop s val fieldNames r of
             Panic \<Rightarrow> Panic
           | Return (err, val', r') \<Rightarrow> Return (err, caller_view v val', r')))"

fun DecryptFields_loop ::
  "Service \<Rightarrow> Value \<Rightarrow> string list \<Rightarrow> (error option \<times> Value) outcome" where
  "DecryptFields_loop s val [] = Return (None, val)"
| "DecryptFields_loop s val (fieldName # fieldNames) =
     (case FieldByName val fieldName of
        Panic \<Rightarrow> Panic
      | Return field \<Rightarrow>
          if \<not> IsValid field \<or> \<not> CanSet field
          then DecryptFields_loop s val fieldNames
          else if Kind field \<noteq> reflect_String
          then DecryptFields_loop s val fieldNames
          else if Value_String field = []
          then DecryptFields_loop s val fieldNames
          else
            (case Decrypt s (Value_String field) of
               Inl err \<Rightarrow> Return (Some err, val)
             | Inr decrypted \<Rightarrow>
                 (case SetString val field decrypted of
                    Panic \<Rightarrow> Panic
                  | Return val' \<Rightarrow> DecryptFields_loop s val' fieldNames)))"

definition DecryptFields ::
  "Service \<Rightarrow> gvalue \<Rightarrow> string list \<Rightarrow> (error option \<times> gvalue) outcome" where
  "DecryptFields s v fieldNames =
     (case (if Kind (reflect_ValueOf v) = reflect_Ptr then Elem (reflect_ValueOf v)
            else Return (reflect_ValueOf v)) of
        Panic \<Rightarrow> Panic
      | Return val \<Rightarrow>
          (case DecryptFields_loop s val fieldNames of
             Panic \<Rightarrow> Panic
           | Return (err, val') \<Rightarrow> Return (err, caller_view v val')))"

section \<open>The loops, field by field\<close>

text \<open>
  The loops of the four transformers visit the fields (or the names) in order and
  change at most the string held by the field they visit. The functions below state
  this as recursions over the list of fields and of names, for any cipher operation
  \<open>f\<close> that threads a state; the lemmas that follow prove that the loops above compute
  exactly these.

  \<open>settable_string w fld\<close>: the field holds a non-empty string and can be set, given
  that the struct it belongs to can (\<open>w\<close>).
\<close>

definition set_string :: "sfield \<Rightarrow> string \<Rightarrow> sfield" where
  "set_string fld x = SField (Name fld) (Tag fld) (StringV x)"

definition settable_string :: "bool \<Rightarrow> sfield \<Rightarrow> bool" where
  "settable_string w fld =
     (w \<and> IsExported (Name fld) \<and> (case Val fld of StringV x \<Rightarrow> x \<noteq> [] | _ \<Rightarrow> False))"

definition tagged :: "sfield \<Rightarrow> bool" where
  "tagged fld = (Tag_Get (Tag fld) ''encrypt'' = ''true'')"

definition field_string :: "sfield \<Rightarrow> string" where
  "field_string fld = (case Val fld of StringV x \<Rightarrow> x | _ \<Rightarrow> [])"

fun tag_walk ::
  "('st \<Rightarrow> string \<Rightarrow> (error + string) \<times> 'st) \<Rightarrow> bool \<Rightarrow> sfield list \<Rightarrow> 'st \<Rightarrow>
   error option \<times> sfield list \<times> 'st" where
  "tag_walk f w [] st = (None, [], st)"
| "tag_walk f w (fld # flds) st =
     (if tagged fld \<and> settable_string w fld then
        (case f st (field_string fld) of
           (Inl err, st') \<Rightarrow> (Some err, fld # flds, st')
         | (Inr x, st') \<Rightarrow>
             (case tag_walk f w flds st' of
                (e, flds', st'') \<Rightarrow> (e, set_string fld x # flds', st'')))
      else
        (case tag_walk f w flds st of
           (e, flds', st') \<Rightarrow> (e, fld # flds', st')))"

fun name_walk ::
  "('st \<Rightarrow> string \<Rightarrow> (error + string) \<times> 'st) \<Rightarrow> bool \<Rightarrow> sfield list \<Rightarrow> string list \<Rightarrow> 'st \<Rightarrow>
   error option \<times> sfield list \<times> 'st" where
  "name_walk f w flds [] st = (None, flds, st)"
| "name_walk f w flds (n # ns) st =
     (case index_of n (map Name flds) of
        None \<Rightarrow> name_walk f w flds ns st
      | Some i \<Rightarrow>
          if settable_string w (flds ! i) then
            (case f st (field_string (flds ! i)) of
               (Inl err, st') \<Rightarrow> (Some err, flds, st')
             | (Inr x, st') \<Rightarrow> name_walk f w (flds[i := set_string (flds ! i) x]) ns st')
          else name_walk f w flds ns st)"

definition decrypt_op :: "Service \<Rightarrow> unit \<Rightarrow> string \<Rightarrow> (error + string) \<times> unit" where
  "decrypt_op s u c = (Decrypt s c, u)"

text \<open>
  \<open>name_skipped w flds n\<close>: the name \<open>n\<close> resolves to no field of the struct, or to a field
  that is not a settable non-empty string. \<open>is_struct_arg v\<close>: the argument is a struct
  or a pointer to one.
\<close>

definition name_skipped :: "bool \<Rightarrow> sfield list \<Rightarrow> string \<Rightarrow> bool" where
  "name_skipped w flds n =
     (case index_of n (map Name flds) of
        None \<Rightarrow> True
      | Some i \<Rightarrow> \<not> settable_string w (flds ! i))"

definition is_struct_arg :: "gvalue \<Rightarrow> bool" where
  "is_struct_arg v =
     (case v of
        StructV flds \<Rightarrow> True
      | PtrV (Some (StructV flds)) \<Rightarrow> True
      | _ \<Rightarrow> False)"



section \<open>A sample AEAD, service and reader\<close>

text \<open>
  An AEAD with the parameters of GCM (a nonce of 12 bytes, a tag of 16) that meets
  \<open>aead_contract\<close>; it is not a cipher anyone should use, and serves only to run the
  functions above on concrete inputs.
\<close>

definition sample_tag :: "byte list \<Rightarrow> byte list \<Rightarrow> byte list \<Rightarrow> byte list \<Rightarrow> byte list" where
  "sample_tag key nonce ct ad =
     (let t = sum_list key + sum_list nonce + sum_list ct + sum_list ad + 1
      in [t, t, t, t, t, t, t, t, t, t, t, t, t, t, t, t])"

definition sample_aead :: "byte list \<Rightarrow> AEAD" where
  "sample_aead key =
     \<lparr>aead_nonce_size = 12,
      aead_seal = (\<lambda>nonce pt ad.
        (let ct = map (\<lambda>b. b + sum_list key + sum_list nonce) pt
         in ct @ sample_tag key nonce ct ad)),
      aead_open = (\<lambda>nonce sealed ad.
        if length sealed < 16 then None
        else
          (let ct = take (length sealed - 16) sealed;
               tag = drop (length sealed - 16) sealed
           in if tag = sample_tag key nonce ct ad
              then Some (map (\<lambda>b. b - sum_list key - sum_list nonce) ct)
              else None))\<rparr>"

definition sample_key :: "byte list" where
  "sample_key = [1, 2, 3, 4, 5, 6, 7, 8, 9, 10, 11, 12, 13, 14, 15, 16]"

definition sample_service :: Service where
  "sample_service = \<lparr>gcm = sample_aead sample_key\<rparr>"

definition sample_reader :: reader where
  "sample_reader = [7, 7, 7, 7, 7, 7, 7, 7, 7, 7, 7, 7]"

definition empty_record :: gvalue where
  "empty_record =
     PtrV (Some (StructV
       [SField ''Name'' [(''json'', ''name'')] (StringV ''Alice''),
        SField ''Email'' [(''json'', ''email''), (''encrypt'', ''true'')] (StringV [])]))"

definition mixed_fields :: "sfield list" where
  "mixed_fields =
     [SField ''Email'' [(''encrypt'', ''true'')] (StringV ''hi''),
      SField ''Phone'' [(''encrypt'', ''true'')] (StringV [])]"


definition flat_record :: gvalue where
  "flat_record =
     PtrV (Some (StructV
       [SField ''Name'' [] (StringV ''Alice''),
        SField ''Email'' [(''encrypt'', ''true'')] (StringV ''hi'')]))"

definition nested_one :: gvalue where
  "nested_one =
     PtrV (Some (StructV
       [SField ''Name'' [] (StringV ''Alice''),
        SField ''Profile'' []
          (StructV [SField ''Email'' [(''encrypt'', ''true'')] (StringV ''hi'')])]))"

definition nested_two :: gvalue where
  "nested_two =
     PtrV (Some (StructV
       [SField ''Name'' [] (StringV ''Alice''),
        SField ''Account'' []
          (StructV
            [SField ''Profile'' [(''encrypt'', ''true'')]
               (StructV [SField ''Email'' [(''encrypt'', ''true'')] (StringV ''hi'')])])]))"



definition stored_fields :: "sfield list" where
  "stored_fields =
     [SField ''Email'' [(''encrypt'', ''true'')] (StringV ''BwcHBwcHBwcHBwcHREVmZmZmZmZmZmZmZmZmZmZm''),
      SField ''Phone'' [(''encrypt'', ''true'')] (StringV ''not-base64!!''),
      SField ''Address'' [(''encrypt'', ''true'')] (StringV ''BwcHBwcHBwcHBwcHREVmZmZmZmZmZmZmZmZmZmZm'')]"

definition fresh_fields :: "sfield list" where
  "fresh_fields =
     [SField ''Email'' [(''encrypt'', ''true'')] (StringV ''hi''),
      SField ''Phone'' [(''encrypt'', ''true'')] (StringV ''+15550100''),
      SField ''Address'' [(''encrypt'', ''true'')] (StringV ''1 Main St'')]"

section \<open>Bytes and base64\<close>

lemma unat_byte_less: "unat (a :: byte) < 256"
  using unsigned_less [of a] by simp

lemma string_bytes_roundtrip: "string_of_bytes (bytes_of_string s) = s"
  by (induction s) (simp_all add: string_of_bytes_def bytes_of_string_def unat_of_nat)

lemma bytes_string_roundtrip: "bytes_of_string (string_of_bytes bs) = bs"
  by (induction bs) (simp_all add: string_of_bytes_def bytes_of_string_def unat_byte_less)

lemma distinct_encodeStd: "distinct encodeStd"
  by (simp add: encodeStd_def)

lemma length_encodeStd: "length encodeStd = 64"
  by (simp add: encodeStd_def)

lemma index_of_nth: "distinct xs \<Longrightarrow> k < length xs \<Longrightarrow> index_of (xs ! k) xs = Some k"
proof (induction xs arbitrary: k)
  case Nil then show ?case by simp
next
  case (Cons x xs)
  then show ?case by (cases k) auto
qed

lemma decodeMap_enc_char: "decodeMap (enc_char k) = Some (k mod 64)"
  by (simp add: decodeMap_def enc_char_def index_of_nth distinct_encodeStd length_encodeStd)

lemma pad_not_in_alphabet: "decodeMap padChar = None"
  by (simp add: decodeMap_def padChar_def encodeStd_def)

lemma enc_char_not_pad: "enc_char k \<noteq> padChar"
  using decodeMap_enc_char [of k] pad_not_in_alphabet by auto

lemma div_64_64: "(n::nat) div 64 div 64 = n div 4096"
  using div_mult2_eq [of n 64 64] by simp

lemma div_4096_64: "(n::nat) div 4096 div 64 = n div 262144"
  using div_mult2_eq [of n 4096 64] by simp

lemma sextets_join:
  fixes n :: nat
  shows "n div 262144 mod 64 * 262144 + n div 4096 mod 64 * 4096 + n div 64 mod 64 * 64 + n mod 64 = n mod 16777216"
proof -
  have a: "n mod 16777216 = 64 * (n div 64 mod 262144) + n mod 64"
    using mod_mult2_eq [of n 64 262144] by simp
  have b: "n div 64 mod 262144 = 64 * (n div 4096 mod 4096) + n div 64 mod 64"
    using mod_mult2_eq [of "n div 64" 64 4096] by (simp add: div_64_64)
  have c: "n div 4096 mod 4096 = 64 * (n div 262144 mod 64) + n div 4096 mod 64"
    using mod_mult2_eq [of "n div 4096" 64 64] by (simp add: div_4096_64)
  show ?thesis unfolding a b c by simp
qed

lemma bytes_split_aux:
  fixes a b c :: nat
  assumes "b < 256" "c < 256"
  shows "((a * 256 + b) * 256 + c) div 256 = a * 256 + b"
    and "((a * 256 + b) * 256 + c) mod 256 = c"
    and "(a * 256 + b) div 256 = a"
    and "(a * 256 + b) mod 256 = b"
proof -
  show "((a * 256 + b) * 256 + c) div 256 = a * 256 + b"
    using div_mult_self3 [of 256 "a * 256 + b" c] assms by simp
  show "((a * 256 + b) * 256 + c) mod 256 = c"
    using mod_mult_self3 [of "a * 256 + b" 256 c] assms by (simp only: mod_less)
  show "(a * 256 + b) div 256 = a"
    using div_mult_self3 [of 256 a b] assms by simp
  show "(a * 256 + b) mod 256 = b"
    using mod_mult_self3 [of a 256 b] assms by (simp only: mod_less)
qed

lemma bytes_split:
  fixes a b c :: nat
  assumes "b < 256" "c < 256"
  shows "(a * 65536 + b * 256 + c) div 65536 = a"
    and "(a * 65536 + b * 256 + c) div 256 mod 256 = b"
    and "(a * 65536 + b * 256 + c) mod 256 = c"
proof -
  have e: "a * 65536 + b * 256 + c = (a * 256 + b) * 256 + c" by simp
  show "(a * 65536 + b * 256 + c) mod 256 = c"
    by (simp only: e bytes_split_aux [OF assms])
  show "(a * 65536 + b * 256 + c) div 256 mod 256 = b"
    by (simp only: e bytes_split_aux [OF assms])
  have "(a * 65536 + b * 256 + c) div 65536 = (a * 65536 + b * 256 + c) div 256 div 256"
    using div_mult2_eq [of "a * 65536 + b * 256 + c" 256 256] by simp
  then show "(a * 65536 + b * 256 + c) div 65536 = a"
    by (simp only: e bytes_split_aux [OF assms])
qed

lemma byte_of_nat_mod: "(of_nat (n mod 256) :: byte) = of_nat n"
  by (simp add: word_of_nat_eq_iff take_bit_eq_mod)

lemma val3_bound:
  "unat (a::byte) * 65536 + unat (b::byte) * 256 + unat (c::byte) < 16777216"
  using unat_byte_less [of a] unat_byte_less [of b] unat_byte_less [of c] by simp

lemma decode_quantum3:
  fixes a b c :: byte
  defines "val \<equiv> unat a * 65536 + unat b * 256 + unat c"
  defines "v' \<equiv> val div 262144 mod 64 * 262144 + val div 4096 mod 64 * 4096 + val div 64 mod 64 * 64 + val mod 64"
  shows "(of_nat (v' div 65536) :: byte) = a" "(of_nat (v' div 256) :: byte) = b" "(of_nat v' :: byte) = c"
proof -
  have v: "v' = val"
    unfolding v'_def sextets_join using val3_bound [of a b c] by (simp add: val_def)
  have "val div 65536 = unat a" "val div 256 mod 256 = unat b" "val mod 256 = unat c"
    unfolding val_def by (rule bytes_split [OF unat_byte_less unat_byte_less])+
  then show "(of_nat (v' div 65536) :: byte) = a" "(of_nat (v' div 256) :: byte) = b" "(of_nat v' :: byte) = c"
    unfolding v using byte_of_nat_mod [of "val div 256"] byte_of_nat_mod [of val] by simp_all
qed

lemma decode_quantum2:
  fixes a b :: byte
  defines "val \<equiv> unat a * 65536 + unat b * 256"
  defines "v' \<equiv> val div 262144 mod 64 * 262144 + val div 4096 mod 64 * 4096 + val div 64 mod 64 * 64"
  shows "(of_nat (v' div 65536) :: byte) = a" "(of_nat (v' div 256) :: byte) = b"
proof -
  have m: "val mod 64 = 0" unfolding val_def by simp
  have "v' + val mod 64 = val mod 16777216"
    unfolding v'_def by (rule sextets_join)
  then have v: "v' = val"
    using m val3_bound [of a b 0] by (simp add: val_def)
  have "val div 65536 = unat a" "val div 256 mod 256 = unat b"
    using bytes_split [of "unat b" 0 "unat a"] unat_byte_less [of b] by (simp_all add: val_def)
  then show "(of_nat (v' div 65536) :: byte) = a" "(of_nat (v' div 256) :: byte) = b"
    unfolding v using byte_of_nat_mod [of "val div 256"] by simp_all
qed

lemma decode_quantum1:
  fixes a :: byte
  defines "val \<equiv> unat a * 65536"
  defines "v' \<equiv> val div 262144 mod 64 * 262144 + val div 4096 mod 64 * 4096"
  shows "(of_nat (v' div 65536) :: byte) = a"
proof -
  have m: "val mod 64 = 0" "val div 64 mod 64 = 0" unfolding val_def by simp_all
  have "v' + val div 64 mod 64 * 64 + val mod 64 = val mod 16777216"
    unfolding v'_def by (rule sextets_join)
  then have v: "v' = val"
    using m val3_bound [of a 0 0] by (simp add: val_def)
  show ?thesis unfolding v val_def by simp
qed

lemma decode_quanta_encode: "decode_quanta (base64_EncodeToString bs) = Some bs"
proof (induction bs rule: base64_EncodeToString.induct)
  case 1
  then show ?case by simp
next
  case (2 a)
  show ?case
    using decode_quantum1 [of a]
    by (simp add: Let_def decodeMap_enc_char pad_not_in_alphabet enc_char_not_pad)
next
  case (3 a b)
  show ?case
    using decode_quantum2 [of a b]
    by (simp add: Let_def decodeMap_enc_char pad_not_in_alphabet enc_char_not_pad)
next
  case (4 a b c src)
  show ?case
    using decode_quantum3 [of a b c] 4
    by (simp add: Let_def decodeMap_enc_char pad_not_in_alphabet enc_char_not_pad)
qed

section \<open>The loops compute the walks\<close>

lemma index_of_Some: "index_of x xs = Some k \<Longrightarrow> k < length xs \<and> xs ! k = x"
  by (induction xs arbitrary: k) (auto split: if_splits option.splits)

lemma struct_ops:
  assumes "v_val val = Some (StructV flds)"
  shows "NumField val = Return (length flds)"
    and "i < length flds \<Longrightarrow> Type_Field val i = Return (flds ! i)"
    and "i < length flds \<Longrightarrow> Field val i =
           Return \<lparr>v_val = Some (Val (flds ! i)), v_addr = v_addr val,
                   v_ro = (v_ro val \<or> \<not> IsExported (Name (flds ! i))), v_loc = Some i\<rparr>"
  using assms by (simp_all add: NumField_def Type_Field_def Field_def)

lemma field_guard:
  assumes "fv = \<lparr>v_val = Some (Val fld), v_addr = a, v_ro = (ro \<or> \<not> IsExported (Name fld)), v_loc = Some i\<rparr>"
  shows "(\<not> (Kind fv \<noteq> reflect_String \<or> \<not> CanSet fv) \<and> Value_String fv \<noteq> []) = settable_string (a \<and> \<not> ro) fld"
    and "settable_string (a \<and> \<not> ro) fld \<Longrightarrow> Value_String fv = field_string fld"
  unfolding assms
  by (cases "Val fld"; auto simp: Kind_def CanSet_def Value_String_def settable_string_def field_string_def)+

lemma tag_walk_length: "tag_walk f w flds st = (e, flds', st') \<Longrightarrow> length flds' = length flds"
  by (induction flds arbitrary: st e flds' st') (auto split: if_splits prod.splits sum.splits)

lemma set_string_ok:
  assumes "v_val val = Some (StructV flds)" "i < length flds"
    and "settable_string (v_addr val \<and> \<not> v_ro val) (flds ! i)"
  shows "SetString val \<lparr>v_val = Some (Val (flds ! i)), v_addr = v_addr val,
                   v_ro = (v_ro val \<or> \<not> IsExported (Name (flds ! i))), v_loc = Some i\<rparr> x
         = Return (val\<lparr>v_val := Some (StructV (flds[i := set_string (flds ! i) x]))\<rparr>)"
  using assms
  by (cases "Val (flds ! i)")
     (auto simp: SetString_def CanSet_def Kind_def settable_string_def set_string_def)

lemma val_same: "v_val val = Some g \<Longrightarrow> val\<lparr>v_val := Some g\<rparr> = val"
  by simp

lemma EncryptStruct_loop_walk:
  assumes "v_val val = Some (StructV flds)" "i \<le> length flds"
  shows "EncryptStruct_loop s val i r =
          (case tag_walk (Encrypt s) (CanSet val) (drop i flds) r of
             (e, flds', r') \<Rightarrow> Return (e, val\<lparr>v_val := Some (StructV (take i flds @ flds'))\<rparr>, r'))"
  using assms
proof (induction "length flds - i" arbitrary: i val flds r)
  case 0
  then have i: "i = length flds" by simp
  show ?case
    using 0(2) by (subst EncryptStruct_loop.simps) (simp add: struct_ops i)
next
  case (Suc k)
  then have lt: "i < length flds" by simp
  let ?fld = "flds ! i"
  let ?fv = "\<lparr>v_val = Some (Val ?fld), v_addr = v_addr val,
               v_ro = (v_ro val \<or> \<not> IsExported (Name ?fld)), v_loc = Some i\<rparr>"
  have d: "drop i flds = ?fld # drop (Suc i) flds"
    using lt by (simp add: Cons_nth_drop_Suc)
  have t: "take (Suc i) flds = take i flds @ [?fld]"
    using lt by (simp add: take_Suc_conv_app_nth)
  have skip: "EncryptStruct_loop s val (Suc i) r =
          (case tag_walk (Encrypt s) (CanSet val) (drop (Suc i) flds) r of
             (e, flds', r') \<Rightarrow> Return (e, val\<lparr>v_val := Some (StructV (take i flds @ ?fld # flds'))\<rparr>, r'))"
    using Suc(1) [of flds "Suc i" val r] Suc(2,3) lt by (simp add: t)
  have g: "(\<not> (Kind ?fv \<noteq> reflect_String \<or> \<not> CanSet ?fv) \<and> Value_String ?fv \<noteq> [])
            = settable_string (CanSet val) ?fld"
    unfolding CanSet_def [of val] by (rule field_guard(1)) simp
  show ?case
  proof (cases "tagged ?fld \<and> settable_string (CanSet val) ?fld")
    case False
    then show ?thesis
      using g skip Suc(3) lt
      by (subst EncryptStruct_loop.simps) (auto simp: struct_ops d tagged_def split: prod.splits)
  next
    case True
    then have ss: "settable_string (v_addr val \<and> \<not> v_ro val) ?fld"
      by (simp add: CanSet_def)
    have str: "Value_String ?fv = field_string ?fld"
      by (rule field_guard(2) [OF _ ss]) simp
    show ?thesis
    proof (cases "Encrypt s r (field_string ?fld)")
      case (Pair res r')
      show ?thesis
      proof (cases res)
        case (Inl err)
        have rhs: "tag_walk (Encrypt s) (CanSet val) (drop i flds) r = (Some err, drop i flds, r')"
          using True Pair Inl d by simp
        show ?thesis
          using True g Pair Inl Suc(3) lt str
          by (subst EncryptStruct_loop.simps)
             (simp add: struct_ops rhs tagged_def val_same)
      next
        case (Inr x)
        let ?val' = "val\<lparr>v_val := Some (StructV (flds[i := set_string ?fld x]))\<rparr>"
        have step: "EncryptStruct_loop s ?val' (Suc i) r' =
          (case tag_walk (Encrypt s) (CanSet val) (drop (Suc i) flds) r' of
             (e, flds', r'') \<Rightarrow> Return (e, val\<lparr>v_val := Some (StructV (take i flds @ set_string ?fld x # flds'))\<rparr>, r''))"
          using Suc(1) [of "flds[i := set_string ?fld x]" "Suc i" ?val' r'] Suc(2) lt
          by (simp add: take_Suc_conv_app_nth CanSet_def)
        show ?thesis
          using True g Pair Inr Suc(3) lt str step set_string_ok [OF Suc(3) lt ss, of x]
          by (subst EncryptStruct_loop.simps)
             (simp add: struct_ops d tagged_def split: prod.splits)
      qed
    qed
  qed
qed

lemma DecryptStruct_loop_walk:
  assumes "v_val val = Some (StructV flds)" "i \<le> length flds"
  shows "DecryptStruct_loop s val i =
          (case tag_walk (decrypt_op s) (CanSet val) (drop i flds) () of
             (e, flds', u) \<Rightarrow> Return (e, val\<lparr>v_val := Some (StructV (take i flds @ flds'))\<rparr>))"
  using assms
proof (induction "length flds - i" arbitrary: i val flds)
  case 0
  then have i: "i = length flds" by simp
  show ?case
    using 0(2) by (subst DecryptStruct_loop.simps) (simp add: struct_ops i)
next
  case (Suc k)
  then have lt: "i < length flds" by simp
  let ?fld = "flds ! i"
  let ?fv = "\<lparr>v_val = Some (Val ?fld), v_addr = v_addr val,
               v_ro = (v_ro val \<or> \<not> IsExported (Name ?fld)), v_loc = Some i\<rparr>"
  have d: "drop i flds = ?fld # drop (Suc i) flds"
    using lt by (simp add: Cons_nth_drop_Suc)
  have t: "take (Suc i) flds = take i flds @ [?fld]"
    using lt by (simp add: take_Suc_conv_app_nth)
  have skip: "DecryptStruct_loop s val (Suc i) =
          (case tag_walk (decrypt_op s) (CanSet val) (drop (Suc i) flds) () of
             (e, flds', u) \<Rightarrow> Return (e, val\<lparr>v_val := Some (StructV (take i flds @ ?fld # flds'))\<rparr>))"
    using Suc(1) [of flds "Suc i" val] Suc(2,3) lt by (simp add: t)
  have g: "(\<not> (Kind ?fv \<noteq> reflect_String \<or> \<not> CanSet ?fv) \<and> Value_String ?fv \<noteq> [])
            = settable_string (CanSet val) ?fld"
    unfolding CanSet_def [of val] by (rule field_guard(1)) simp
  show ?case
  proof (cases "tagged ?fld \<and> settable_string (CanSet val) ?fld")
    case False
    then show ?thesis
      using g skip Suc(3) lt
      by (subst DecryptStruct_loop.simps) (auto simp: struct_ops d tagged_def split: prod.splits)
  next
    case True
    then have ss: "settable_string (v_addr val \<and> \<not> v_ro val) ?fld"
      by (simp add: CanSet_def)
    have str: "Value_String ?fv = field_string ?fld"
      by (rule field_guard(2) [OF _ ss]) simp
    show ?thesis
    proof -
      have Pair: "decrypt_op s () (field_string ?fld) = (Decrypt s (field_string ?fld), ())"
        by (simp add: decrypt_op_def)
      show ?thesis
      proof (cases "Decrypt s (field_string ?fld)")
        case (Inl err)
        have rhs: "tag_walk (decrypt_op s) (CanSet val) (drop i flds) () = (Some err, drop i flds, ())"
          using True Pair Inl d by simp
        show ?thesis
          using True g Pair Inl Suc(3) lt str
          by (subst DecryptStruct_loop.simps)
             (simp add: struct_ops rhs tagged_def val_same)
      next
        case (Inr x)
        let ?val' = "val\<lparr>v_val := Some (StructV (flds[i := set_string ?fld x]))\<rparr>"
        have step: "DecryptStruct_loop s ?val' (Suc i) =
          (case tag_walk (decrypt_op s) (CanSet val) (drop (Suc i) flds) () of
             (e, flds', u) \<Rightarrow> Return (e, val\<lparr>v_val := Some (StructV (take i flds @ set_string ?fld x # flds'))\<rparr>))"
          using Suc(1) [of "flds[i := set_string ?fld x]" "Suc i" ?val'] Suc(2) lt
          by (simp add: take_Suc_conv_app_nth CanSet_def)
        show ?thesis
          using True g Pair Inr Suc(3) lt str step set_string_ok [OF Suc(3) lt ss, of x]
          by (subst DecryptStruct_loop.simps)
             (simp add: struct_ops d tagged_def split: prod.splits)
      qed
    qed
  qed
qed

lemma FieldByName_struct:
  assumes "v_val val = Some (StructV flds)"
  shows "FieldByName val n =
     (case index_of n (map Name flds) of
        None \<Rightarrow> Return zero_Value
      | Some i \<Rightarrow> Return \<lparr>v_val = Some (Val (flds ! i)), v_addr = v_addr val,
                   v_ro = (v_ro val \<or> \<not> IsExported (Name (flds ! i))), v_loc = Some i\<rparr>)"
  using assms index_of_Some [of n "map Name flds"]
  by (auto simp: FieldByName_def Field_def split: option.splits)

lemma zero_Value_invalid: "\<not> IsValid zero_Value"
  by (simp add: IsValid_def zero_Value_def)

lemma field_valid:
  "IsValid \<lparr>v_val = Some g, v_addr = a, v_ro = b, v_loc = l\<rparr>"
  by (simp add: IsValid_def)

lemma name_guard:
  assumes "fv = \<lparr>v_val = Some (Val fld), v_addr = a, v_ro = (ro \<or> \<not> IsExported (Name fld)), v_loc = Some i\<rparr>"
  shows "(\<not> (\<not> IsValid fv \<or> \<not> CanSet fv) \<and> \<not> Kind fv \<noteq> reflect_String \<and> Value_String fv \<noteq> [])
           = settable_string (a \<and> \<not> ro) fld"
  unfolding assms
  by (cases "Val fld"; auto simp: IsValid_def Kind_def CanSet_def Value_String_def settable_string_def)

lemma EncryptFields_loop_walk:
  assumes "v_val val = Some (StructV flds)"
  shows "EncryptFields_loop s val ns r =
          (case name_walk (Encrypt s) (CanSet val) flds ns r of
             (e, flds', r') \<Rightarrow> Return (e, val\<lparr>v_val := Some (StructV flds')\<rparr>, r'))"
  using assms
proof (induction ns arbitrary: val flds r)
  case Nil
  then show ?case by (simp add: val_same)
next
  case (Cons n ns)
  show ?case
  proof (cases "index_of n (map Name flds)")
    case None
    then show ?thesis
      using Cons.IH [OF Cons.prems, of r]
      by (simp add: FieldByName_struct [OF Cons.prems] zero_Value_invalid)
  next
    case (Some i)
    then have lt: "i < length flds"
      using index_of_Some [of n "map Name flds" i] by simp
    let ?fld = "flds ! i"
    let ?fv = "\<lparr>v_val = Some (Val ?fld), v_addr = v_addr val,
               v_ro = (v_ro val \<or> \<not> IsExported (Name ?fld)), v_loc = Some i\<rparr>"
    have g: "(\<not> (\<not> IsValid ?fv \<or> \<not> CanSet ?fv) \<and> \<not> Kind ?fv \<noteq> reflect_String \<and> Value_String ?fv \<noteq> [])
           = settable_string (CanSet val) ?fld"
      unfolding CanSet_def [of val] by (rule name_guard) simp
    show ?thesis
    proof (cases "settable_string (CanSet val) ?fld")
      case False
      then show ?thesis
        using g Some Cons.IH [OF Cons.prems, of r]
        by (auto simp: FieldByName_struct [OF Cons.prems])
    next
      case True
      then have ss: "settable_string (v_addr val \<and> \<not> v_ro val) ?fld"
        by (simp add: CanSet_def)
      have str: "Value_String ?fv = field_string ?fld"
        by (rule field_guard(2) [OF _ ss]) simp
      show ?thesis
      proof (cases "Encrypt s r (field_string ?fld)")
        case (Pair res r')
        show ?thesis
        proof (cases res)
          case (Inl err)
          then show ?thesis
            using True g Some Pair str Cons.prems
            by (simp add: FieldByName_struct [OF Cons.prems] val_same)
        next
          case (Inr x)
          let ?val' = "val\<lparr>v_val := Some (StructV (flds[i := set_string ?fld x]))\<rparr>"
          have step: "EncryptFields_loop s ?val' ns r' =
            (case name_walk (Encrypt s) (CanSet val) (flds[i := set_string ?fld x]) ns r' of
               (e, flds', r'') \<Rightarrow> Return (e, val\<lparr>v_val := Some (StructV flds')\<rparr>, r''))"
            using Cons.IH [of ?val' "flds[i := set_string ?fld x]" r']
            by (simp add: CanSet_def)
          show ?thesis
            using True g Some Pair Inr str step set_string_ok [OF Cons.prems lt ss, of x]
            by (simp add: FieldByName_struct [OF Cons.prems])
        qed
      qed
    qed
  qed
qed

lemma DecryptFields_loop_walk:
  assumes "v_val val = Some (StructV flds)"
  shows "DecryptFields_loop s val ns =
          (case name_walk (decrypt_op s) (CanSet val) flds ns () of
             (e, flds', u) \<Rightarrow> Return (e, val\<lparr>v_val := Some (StructV flds')\<rparr>))"
  using assms
proof (induction ns arbitrary: val flds)
  case Nil
  then show ?case by (simp add: val_same)
next
  case (Cons n ns)
  show ?case
  proof (cases "index_of n (map Name flds)")
    case None
    then show ?thesis
      using Cons.IH [OF Cons.prems]
      by (simp add: FieldByName_struct [OF Cons.prems] zero_Value_invalid)
  next
    case (Some i)
    then have lt: "i < length flds"
      using index_of_Some [of n "map Name flds" i] by simp
    let ?fld = "flds ! i"
    let ?fv = "\<lparr>v_val = Some (Val ?fld), v_addr = v_addr val,
               v_ro = (v_ro val \<or> \<not> IsExported (Name ?fld)), v_loc = Some i\<rparr>"
    have g: "(\<not> (\<not> IsValid ?fv \<or> \<not> CanSet ?fv) \<and> \<not> Kind ?fv \<noteq> reflect_String \<and> Value_String ?fv \<noteq> [])
           = settable_string (CanSet val) ?fld"
      unfolding CanSet_def [of val] by (rule name_guard) simp
    show ?thesis
    proof (cases "settable_string (CanSet val) ?fld")
      case False
      then show ?thesis
        using g Some Cons.IH [OF Cons.prems]
        by (auto simp: FieldByName_struct [OF Cons.prems])
    next
      case True
      then have ss: "settable_string (v_addr val \<and> \<not> v_ro val) ?fld"
        by (simp add: CanSet_def)
      have str: "Value_String ?fv = field_string ?fld"
        by (rule field_guard(2) [OF _ ss]) simp
      have Pair: "decrypt_op s () (field_string ?fld) = (Decrypt s (field_string ?fld), ())"
        by (simp add: decrypt_op_def)
      show ?thesis
      proof (cases "Decrypt s (field_string ?fld)")
        case (Inl err)
        then show ?thesis
          using True g Some str Cons.prems Pair
          by (simp add: FieldByName_struct [OF Cons.prems] val_same)
      next
        case (Inr x)
        let ?val' = "val\<lparr>v_val := Some (StructV (flds[i := set_string ?fld x]))\<rparr>"
        have step: "DecryptFields_loop s ?val' ns =
          (case name_walk (decrypt_op s) (CanSet val) (flds[i := set_string ?fld x]) ns () of
             (e, flds', u) \<Rightarrow> Return (e, val\<lparr>v_val := Some (StructV flds')\<rparr>))"
          using Cons.IH [of ?val' "flds[i := set_string ?fld x]"]
          by (simp add: CanSet_def)
        show ?thesis
          using True g Some Inr str step set_string_ok [OF Cons.prems lt ss, of x] Pair
          by (simp add: FieldByName_struct [OF Cons.prems])
      qed
    qed
  qed
qed

lemma FieldByName_not_struct:
  assumes "\<forall>flds. v_val val \<noteq> Some (StructV flds)"
  shows "FieldByName val n = Panic"
  using assms by (auto simp: FieldByName_def split: option.splits gvalue.splits)

subsection \<open>Properties of the walks\<close>

lemma tag_walk_frame:
  assumes "tag_walk f w flds st = (e, flds', st')" "i < length flds"
    and "\<not> (tagged (flds ! i) \<and> settable_string w (flds ! i))"
  shows "flds' ! i = flds ! i"
  using assms
proof (induction flds arbitrary: st e flds' st' i)
  case Nil
  then show ?case by simp
next
  case (Cons fld flds)
  show ?case
  proof (cases i)
    case 0
    then show ?thesis
      using Cons.prems by (auto split: if_splits prod.splits sum.splits)
  next
    case (Suc j)
    then show ?thesis
      using Cons.prems Cons.IH [of _ _ _ _ j]
      by (auto split: if_splits prod.splits sum.splits)
  qed
qed

lemma tag_walk_shape:
  "tag_walk f w flds st = (e, flds', st') \<Longrightarrow>
     map Name flds' = map Name flds \<and> map Tag flds' = map Tag flds"
  by (induction flds arbitrary: st e flds' st')
     (auto simp: set_string_def split: if_splits prod.splits sum.splits)

lemma tag_walk_noop:
  "\<forall>fld \<in> set flds. \<not> (tagged fld \<and> settable_string w fld) \<Longrightarrow>
     tag_walk f w flds st = (None, flds, st)"
  by (induction flds arbitrary: st) auto

lemma tag_walk_not_settable: "tag_walk f False flds st = (None, flds, st)"
  by (rule tag_walk_noop) (simp add: settable_string_def)

lemma tag_walk_append:
  "tag_walk f w (xs @ ys) st =
     (case tag_walk f w xs st of
        (None, xs', st') \<Rightarrow>
          (case tag_walk f w ys st' of (e, ys', st'') \<Rightarrow> (e, xs' @ ys', st''))
      | (Some err, xs', st') \<Rightarrow> (Some err, xs' @ ys, st'))"
  by (induction xs arbitrary: st) (auto split: prod.splits sum.splits option.splits)



lemma name_walk_skip:
  "name_skipped w flds n \<Longrightarrow> name_walk f w flds (n # ns) st = name_walk f w flds ns st"
  by (auto simp: name_skipped_def split: option.splits)

lemma name_walk_noop:
  "\<forall>n \<in> set ns. name_skipped w flds n \<Longrightarrow> name_walk f w flds ns st = (None, flds, st)"
  by (induction ns) (auto simp: name_walk_skip simp del: name_walk.simps(2))

lemma name_walk_append:
  "name_walk f w flds (ns @ ms) st =
     (case name_walk f w flds ns st of
        (None, flds', st') \<Rightarrow> name_walk f w flds' ms st'
      | (Some err, flds', st') \<Rightarrow> (Some err, flds', st'))"
  by (induction ns arbitrary: flds st) (auto split: prod.splits sum.splits option.splits)

subsection \<open>The four transformers on each shape of argument\<close>

lemma EncryptStruct_ptr:
  "EncryptStruct s r (PtrV (Some (StructV flds))) =
     (case tag_walk (Encrypt s) True flds r of
        (e, flds', r') \<Rightarrow> Return (e, PtrV (Some (StructV flds')), r'))"
  using EncryptStruct_loop_walk [of "\<lparr>v_val = Some (StructV flds), v_addr = True, v_ro = False, v_loc = None\<rparr>" flds 0 s r]
  by (simp add: EncryptStruct_def reflect_ValueOf_def Kind_def Elem_def CanSet_def caller_view_def
           split: prod.splits)

lemma EncryptStruct_struct:
  "EncryptStruct s r (StructV flds) = Return (None, StructV flds, r)"
  using EncryptStruct_loop_walk [of "\<lparr>v_val = Some (StructV flds), v_addr = False, v_ro = False, v_loc = None\<rparr>" flds 0 s r]
  by (simp add: EncryptStruct_def reflect_ValueOf_def Kind_def CanSet_def caller_view_def
        tag_walk_not_settable)

lemma EncryptStruct_other:
  "\<not> is_struct_arg v \<Longrightarrow> EncryptStruct s r v = Return (None, v, r)"
  by (auto simp: is_struct_arg_def EncryptStruct_def reflect_ValueOf_def Kind_def Elem_def
        zero_Value_def split: gvalue.splits option.splits)

lemma DecryptStruct_ptr:
  "DecryptStruct s (PtrV (Some (StructV flds))) =
     (case tag_walk (decrypt_op s) True flds () of
        (e, flds', u) \<Rightarrow> Return (e, PtrV (Some (StructV flds'))))"
  using DecryptStruct_loop_walk [of "\<lparr>v_val = Some (StructV flds), v_addr = True, v_ro = False, v_loc = None\<rparr>" flds 0 s]
  by (simp add: DecryptStruct_def reflect_ValueOf_def Kind_def Elem_def CanSet_def caller_view_def
           split: prod.splits)

lemma DecryptStruct_struct:
  "DecryptStruct s (StructV flds) = Return (None, StructV flds)"
  using DecryptStruct_loop_walk [of "\<lparr>v_val = Some (StructV flds), v_addr = False, v_ro = False, v_loc = None\<rparr>" flds 0 s]
  by (simp add: DecryptStruct_def reflect_ValueOf_def Kind_def CanSet_def caller_view_def
        tag_walk_not_settable)

lemma DecryptStruct_other:
  "\<not> is_struct_arg v \<Longrightarrow> DecryptStruct s v = Return (None, v)"
  by (auto simp: is_struct_arg_def DecryptStruct_def reflect_ValueOf_def Kind_def Elem_def
        zero_Value_def split: gvalue.splits option.splits)

lemma EncryptFields_ptr:
  "EncryptFields s r (PtrV (Some (StructV flds))) ns =
     (case name_walk (Encrypt s) True flds ns r of
        (e, flds', r') \<Rightarrow> Return (e, PtrV (Some (StructV flds')), r'))"
  using EncryptFields_loop_walk [of "\<lparr>v_val = Some (StructV flds), v_addr = True, v_ro = False, v_loc = None\<rparr>" flds s ns r]
  by (simp add: EncryptFields_def reflect_ValueOf_def Kind_def Elem_def CanSet_def caller_view_def
           split: prod.splits)



lemma DecryptFields_ptr:
  "DecryptFields s (PtrV (Some (StructV flds))) ns =
     (case name_walk (decrypt_op s) True flds ns () of
        (e, flds', u) \<Rightarrow> Return (e, PtrV (Some (StructV flds'))))"
  using DecryptFields_loop_walk [of "\<lparr>v_val = Some (StructV flds), v_addr = True, v_ro = False, v_loc = None\<rparr>" flds s ns]
  by (simp add: DecryptFields_def reflect_ValueOf_def Kind_def Elem_def CanSet_def caller_view_def
           split: prod.splits)


lemma EncryptFields_other:
  assumes "\<not> is_struct_arg v"
  shows "EncryptFields s r v [] = Return (None, v, r)"
    and "EncryptFields s r v (n # ns) = Panic"
  using assms
  by (auto simp: is_struct_arg_def EncryptFields_def reflect_ValueOf_def Kind_def Elem_def
        zero_Value_def caller_view_def FieldByName_def split: gvalue.splits option.splits)

lemma DecryptFields_other:
  assumes "\<not> is_struct_arg v"
  shows "DecryptFields s v [] = Return (None, v)"
    and "DecryptFields s v (n # ns) = Panic"
  using assms
  by (auto simp: is_struct_arg_def DecryptFields_def reflect_ValueOf_def Kind_def Elem_def
        zero_Value_def caller_view_def FieldByName_def split: gvalue.splits option.splits)

lemma sample_aead_contract: "aead_contract (sample_aead key)"
  by (simp add: aead_contract_def sample_aead_def sample_tag_def Let_def comp_def)

section \<open>The cipher core\<close>

lemma encode_no_newlines:
  "filter (\<lambda>c. c \<noteq> CHR 0x0A \<and> c \<noteq> CHR 0x0D) (base64_EncodeToString bs) = base64_EncodeToString bs"
proof -
  have e: "enc_char k \<noteq> CHR 0x0A \<and> enc_char k \<noteq> CHR 0x0D" for k
  proof -
    have "enc_char k \<in> set encodeStd"
      by (simp add: enc_char_def length_encodeStd)
    then show ?thesis by (auto simp: encodeStd_def)
  qed
  have p: "padChar \<noteq> CHR 0x0A \<and> padChar \<noteq> CHR 0x0D"
    by (simp add: padChar_def)
  show ?thesis
    by (induction bs rule: base64_EncodeToString.induct) (simp_all add: e p Let_def)
qed

lemma base64_round_trip: "base64_DecodeString (base64_EncodeToString bs) = Some bs"
  by (simp add: base64_DecodeString_def encode_no_newlines decode_quanta_encode)


lemma base64_encode_empty: "base64_EncodeToString bs = [] \<longleftrightarrow> bs = []"
  by (cases bs rule: base64_EncodeToString.cases) (simp_all add: Let_def)

lemma NewService_result:
  "NewService aes_gcm key =
     (if length key = 16 \<or> length key = 24 \<or> length key = 32
      then Inr \<lparr>gcm = aes_gcm key\<rparr>
      else Inl (KeySizeError (length key)))"
  by (simp add: NewService_def aes_NewCipher_def cipher_NewGCM_def)

lemma EncryptBytes_Inr:
  assumes "EncryptBytes s r p = (Inr c, r')" "p \<noteq> []"
  shows "NonceSize (gcm s) \<le> length r
       \<and> c = take (NonceSize (gcm s)) r @ aead_seal (gcm s) (take (NonceSize (gcm s)) r) p []
       \<and> r' = drop (NonceSize (gcm s)) r"
  using assms
  by (auto simp: EncryptBytes_def io_ReadFull_def Seal_def split: if_splits)

lemma Encrypt_Inr:
  assumes "Encrypt s r p = (Inr c, r')" "p \<noteq> []"
  shows "NonceSize (gcm s) \<le> length r
       \<and> c = base64_EncodeToString (take (NonceSize (gcm s)) r @
                aead_seal (gcm s) (take (NonceSize (gcm s)) r) (bytes_of_string p) [])
       \<and> r' = drop (NonceSize (gcm s)) r"
  using assms
  by (auto simp: Encrypt_def io_ReadFull_def Seal_def Let_def split: if_splits)

lemma DecryptBytes_sealed:
  assumes "aead_contract (gcm s)" "length nonce = NonceSize (gcm s)"
  shows "DecryptBytes s (nonce @ aead_seal (gcm s) nonce p []) = Inr p"
  using assms
  by (auto simp: DecryptBytes_def aead_contract_def NonceSize_def Open_def Let_def)

lemma Decrypt_sealed:
  assumes "aead_contract (gcm s)" "length nonce = NonceSize (gcm s)"
  shows "Decrypt s (base64_EncodeToString (nonce @ aead_seal (gcm s) nonce (bytes_of_string p) [])) = Inr p"
  using assms
  by (auto simp: Decrypt_def aead_contract_def NonceSize_def Open_def Let_def base64_round_trip
        base64_encode_empty string_bytes_roundtrip)

text \<open>
  C1. For every key of 16, 24 or 32 bytes, \<^verbatim>\<open>NewService\<close> returns a service, and under
  that service \<^verbatim>\<open>Decrypt\<close> applied to what \<^verbatim>\<open>Encrypt\<close> returned for a non-empty
  plaintext gives the plaintext back with no error; likewise \<^verbatim>\<open>DecryptBytes\<close> after
  \<^verbatim>\<open>EncryptBytes\<close>. The AEAD built from the key is assumed to meet the contract of
  an AEAD.
\<close>

theorem round_trip:
  assumes "length key = 16 \<or> length key = 24 \<or> length key = 32"
    and "aead_contract (aes_gcm key)"
  shows "\<exists>s. NewService aes_gcm key = Inr s \<and>
           (\<forall>r p c r'. p \<noteq> [] \<and> Encrypt s r p = (Inr c, r') \<longrightarrow> Decrypt s c = Inr p) \<and>
           (\<forall>r p c r'. p \<noteq> [] \<and> EncryptBytes s r p = (Inr c, r') \<longrightarrow> DecryptBytes s c = Inr p)"
proof -
  let ?s = "\<lparr>gcm = aes_gcm key\<rparr>"
  have new: "NewService aes_gcm key = Inr ?s"
    using assms(1) by (simp add: NewService_result)
  have c: "aead_contract (gcm ?s)"
    using assms(2) by simp
  have txt_mode: "Decrypt ?s c = Inr p" if "p \<noteq> []" "Encrypt ?s r p = (Inr c, r')" for r p c r'
  proof -
    let ?n = "NonceSize (gcm ?s)"
    from Encrypt_Inr [OF that(2,1)]
    have n: "?n \<le> length r"
      and ceq: "c = base64_EncodeToString (take ?n r @ aead_seal (gcm ?s) (take ?n r) (bytes_of_string p) [])"
      by blast+
    have "length (take ?n r) = ?n" using n by simp
    from Decrypt_sealed [OF c this] show ?thesis unfolding ceq .
  qed
  have byte_mode: "DecryptBytes ?s c = Inr p" if "p \<noteq> []" "EncryptBytes ?s r p = (Inr c, r')" for r p c r'
  proof -
    let ?n = "NonceSize (gcm ?s)"
    from EncryptBytes_Inr [OF that(2,1)]
    have n: "?n \<le> length r"
      and ceq: "c = take ?n r @ aead_seal (gcm ?s) (take ?n r) p []"
      by blast+
    have "length (take ?n r) = ?n" using n by simp
    from DecryptBytes_sealed [OF c this] show ?thesis unfolding ceq .
  qed
  show ?thesis
    using new txt_mode byte_mode by blast
qed

lemma sample_NewService: "NewService sample_aead sample_key = Inr sample_service"
  by (simp add: NewService_result sample_key_def sample_service_def)

lemma sample_Encrypt:
  "Encrypt sample_service sample_reader ''hi'' =
     (Inr ''BwcHBwcHBwcHBwcHREVmZmZmZmZmZmZmZmZmZmZm'', [])"
  by (simp add: Encrypt_def sample_service_def sample_reader_def sample_key_def sample_aead_def
       sample_tag_def io_ReadFull_def NonceSize_def Seal_def bytes_of_string_def Let_def
       enc_char_def encodeStd_def padChar_def)

lemma sample_EncryptBytes:
  "EncryptBytes sample_service sample_reader [104, 105] =
     (Inr [7, 7, 7, 7, 7, 7, 7, 7, 7, 7, 7, 7, 68, 69,
           102, 102, 102, 102, 102, 102, 102, 102, 102, 102, 102, 102, 102, 102, 102, 102], [])"
  by (simp add: EncryptBytes_def sample_service_def sample_reader_def sample_key_def sample_aead_def
       sample_tag_def io_ReadFull_def NonceSize_def Seal_def Let_def)

theorem round_trip_witness:
  "length sample_key = 16 \<and> aead_contract (sample_aead sample_key) \<and>
   NewService sample_aead sample_key = Inr sample_service \<and>
   Encrypt sample_service sample_reader ''hi'' =
     (Inr ''BwcHBwcHBwcHBwcHREVmZmZmZmZmZmZmZmZmZmZm'', []) \<and>
   Decrypt sample_service ''BwcHBwcHBwcHBwcHREVmZmZmZmZmZmZmZmZmZmZm'' = Inr ''hi'' \<and>
   EncryptBytes sample_service sample_reader [104, 105] =
     (Inr [7, 7, 7, 7, 7, 7, 7, 7, 7, 7, 7, 7, 68, 69,
           102, 102, 102, 102, 102, 102, 102, 102, 102, 102, 102, 102, 102, 102, 102, 102], []) \<and>
   DecryptBytes sample_service
      [7, 7, 7, 7, 7, 7, 7, 7, 7, 7, 7, 7, 68, 69,
       102, 102, 102, 102, 102, 102, 102, 102, 102, 102, 102, 102, 102, 102, 102, 102] = Inr [104, 105]"
proof -
  have len: "length sample_key = 16"
    by (simp add: sample_key_def)
  have "\<exists>s. NewService sample_aead sample_key = Inr s \<and>
           (\<forall>r p c r'. p \<noteq> [] \<and> Encrypt s r p = (Inr c, r') \<longrightarrow> Decrypt s c = Inr p) \<and>
           (\<forall>r p c r'. p \<noteq> [] \<and> EncryptBytes s r p = (Inr c, r') \<longrightarrow> DecryptBytes s c = Inr p)"
    by (rule round_trip [OF _ sample_aead_contract]) (simp add: len)
  then obtain s where s: "NewService sample_aead sample_key = Inr s"
    and t: "\<forall>r p c r'. p \<noteq> [] \<and> Encrypt s r p = (Inr c, r') \<longrightarrow> Decrypt s c = Inr p"
    and b: "\<forall>r p c r'. p \<noteq> [] \<and> EncryptBytes s r p = (Inr c, r') \<longrightarrow> DecryptBytes s c = Inr p"
    by (elim exE conjE)
  have eq: "s = sample_service"
    using s sample_NewService by simp
  have d1: "Decrypt sample_service ''BwcHBwcHBwcHBwcHREVmZmZmZmZmZmZmZmZmZmZm'' = Inr ''hi''"
    using t [unfolded eq, rule_format, of "''hi''" sample_reader _ "[]"] sample_Encrypt by simp
  have d2: "DecryptBytes sample_service
      [7, 7, 7, 7, 7, 7, 7, 7, 7, 7, 7, 7, 68, 69,
       102, 102, 102, 102, 102, 102, 102, 102, 102, 102, 102, 102, 102, 102, 102, 102] = Inr [104, 105]"
    using b [unfolded eq, rule_format, of "[104, 105]" sample_reader _ "[]"] sample_EncryptBytes by simp
  show ?thesis
    by (intro conjI len sample_aead_contract sample_NewService sample_Encrypt sample_EncryptBytes d1 d2)
qed

lemma settable_string_empty: "Val fld = StringV [] \<Longrightarrow> \<not> settable_string w fld"
  by (simp add: settable_string_def)

section \<open>Empty values\<close>

lemma name_walk_frame_unsettable:
  assumes "name_walk f w flds ns st = (e, flds', st')" "i < length flds"
    and "\<not> settable_string w (flds ! i)"
  shows "flds' ! i = flds ! i"
  using assms
proof (induction ns arbitrary: flds st e flds' st')
  case Nil
  then show ?case by simp
next
  case (Cons n ns)
  show ?case
  proof (cases "index_of n (map Name flds)")
    case None
    then show ?thesis using Cons by simp
  next
    case (Some j)
    show ?thesis
    proof (cases "settable_string w (flds ! j)")
      case False
      then show ?thesis using Cons Some by simp
    next
      case True
      then have ne: "j \<noteq> i" using Cons.prems(3) by auto
      then have same: "(flds[j := y]) ! i = flds ! i" for y
        by simp
      show ?thesis
      proof (cases "f st (field_string (flds ! j))")
        case (Pair res st1)
        show ?thesis
        proof (cases res)
          case (Inl err)
          then show ?thesis using Cons.prems Some True Pair by simp
        next
          case (Inr x)
          have "name_walk f w (flds[j := set_string (flds ! j) x]) ns st1 = (e, flds', st')"
            using Cons.prems(1) Some True Pair Inr by simp
          from Cons.IH [OF this] Cons.prems(2,3) same
          show ?thesis by simp
        qed
      qed
    qed
  qed
qed

text \<open>
  C9. \<^verbatim>\<open>Encrypt\<close> and \<^verbatim>\<open>Decrypt\<close> on the empty string return the empty string with no
  error, \<^verbatim>\<open>EncryptBytes\<close> and \<^verbatim>\<open>DecryptBytes\<close> on an empty byte sequence return an
  empty result with no error, in every service; and in both record transforms, in
  both directions, a field that holds the empty string is left unchanged whatever
  happens to the other fields, and with no error: a record whose tagged fields (whose
  named fields) all hold the empty string comes back as it was, with \<^verbatim>\<open>nil\<close>, and no
  random bytes are drawn.
\<close>

theorem empty_value_noop:
  "Encrypt s r [] = (Inr [], r) \<and> Decrypt s [] = Inr [] \<and>
   EncryptBytes s r [] = (Inr [], r) \<and> DecryptBytes s [] = Inr [] \<and>
   (\<exists>e flds' r'.
      EncryptStruct s r (PtrV (Some (StructV flds))) = Return (e, PtrV (Some (StructV flds')), r') \<and>
      (\<forall>i < length flds. Val (flds ! i) = StringV [] \<longrightarrow> flds' ! i = flds ! i)) \<and>
   (\<exists>e flds'.
      DecryptStruct s (PtrV (Some (StructV flds))) = Return (e, PtrV (Some (StructV flds'))) \<and>
      (\<forall>i < length flds. Val (flds ! i) = StringV [] \<longrightarrow> flds' ! i = flds ! i)) \<and>
   (\<exists>e flds' r'.
      EncryptFields s r (PtrV (Some (StructV flds))) ns = Return (e, PtrV (Some (StructV flds')), r') \<and>
      (\<forall>i < length flds. Val (flds ! i) = StringV [] \<longrightarrow> flds' ! i = flds ! i)) \<and>
   (\<exists>e flds'.
      DecryptFields s (PtrV (Some (StructV flds))) ns = Return (e, PtrV (Some (StructV flds'))) \<and>
      (\<forall>i < length flds. Val (flds ! i) = StringV [] \<longrightarrow> flds' ! i = flds ! i)) \<and>
   ((\<forall>fld \<in> set flds. tagged fld \<longrightarrow> Val fld = StringV []) \<longrightarrow>
      EncryptStruct s r (PtrV (Some (StructV flds))) = Return (None, PtrV (Some (StructV flds)), r) \<and>
      DecryptStruct s (PtrV (Some (StructV flds))) = Return (None, PtrV (Some (StructV flds)))) \<and>
   ((\<forall>n \<in> set ns. \<forall>i. index_of n (map Name flds) = Some i \<longrightarrow> Val (flds ! i) = StringV []) \<longrightarrow>
      EncryptFields s r (PtrV (Some (StructV flds))) ns = Return (None, PtrV (Some (StructV flds)), r) \<and>
      DecryptFields s (PtrV (Some (StructV flds))) ns = Return (None, PtrV (Some (StructV flds))))"
proof -
  have core: "Encrypt s r [] = (Inr [], r) \<and> Decrypt s [] = Inr [] \<and>
              EncryptBytes s r [] = (Inr [], r) \<and> DecryptBytes s [] = Inr []"
    by (simp add: Encrypt_def Decrypt_def EncryptBytes_def DecryptBytes_def)
  have walk: "\<forall>i < length flds. Val (flds ! i) = StringV [] \<longrightarrow> flds' ! i = flds ! i"
    if "tag_walk f True flds st = (e, flds', st')" for f :: "'st \<Rightarrow> string \<Rightarrow> (error + string) \<times> 'st"
      and st e flds' st'
    using tag_walk_frame [OF that] settable_string_empty by blast
  have nwalk: "\<forall>i < length flds. Val (flds ! i) = StringV [] \<longrightarrow> flds' ! i = flds ! i"
    if "name_walk f True flds ns st = (e, flds', st')" for f :: "'st \<Rightarrow> string \<Rightarrow> (error + string) \<times> 'st"
      and st e flds' st'
    using name_walk_frame_unsettable [OF that] settable_string_empty by blast
  have enc: "\<exists>e flds' r'.
      EncryptStruct s r (PtrV (Some (StructV flds))) = Return (e, PtrV (Some (StructV flds')), r') \<and>
      (\<forall>i < length flds. Val (flds ! i) = StringV [] \<longrightarrow> flds' ! i = flds ! i)"
  proof (cases "tag_walk (Encrypt s) True flds r")
    case (fields e flds' r')
    show ?thesis
      using walk [OF fields] by (simp add: EncryptStruct_ptr fields)
  qed
  have dec: "\<exists>e flds'.
      DecryptStruct s (PtrV (Some (StructV flds))) = Return (e, PtrV (Some (StructV flds'))) \<and>
      (\<forall>i < length flds. Val (flds ! i) = StringV [] \<longrightarrow> flds' ! i = flds ! i)"
  proof (cases "tag_walk (decrypt_op s) True flds ()")
    case (fields e flds' u)
    show ?thesis
      using walk [OF fields] by (simp add: DecryptStruct_ptr fields)
  qed
  have encn: "\<exists>e flds' r'.
      EncryptFields s r (PtrV (Some (StructV flds))) ns = Return (e, PtrV (Some (StructV flds')), r') \<and>
      (\<forall>i < length flds. Val (flds ! i) = StringV [] \<longrightarrow> flds' ! i = flds ! i)"
  proof (cases "name_walk (Encrypt s) True flds ns r")
    case (fields e flds' r')
    show ?thesis
      using nwalk [OF fields] by (simp add: EncryptFields_ptr fields)
  qed
  have decn: "\<exists>e flds'.
      DecryptFields s (PtrV (Some (StructV flds))) ns = Return (e, PtrV (Some (StructV flds'))) \<and>
      (\<forall>i < length flds. Val (flds ! i) = StringV [] \<longrightarrow> flds' ! i = flds ! i)"
  proof (cases "name_walk (decrypt_op s) True flds ns ()")
    case (fields e flds' u)
    show ?thesis
      using nwalk [OF fields] by (simp add: DecryptFields_ptr fields)
  qed
  have tag_mode: "EncryptStruct s r (PtrV (Some (StructV flds))) = Return (None, PtrV (Some (StructV flds)), r) \<and>
      DecryptStruct s (PtrV (Some (StructV flds))) = Return (None, PtrV (Some (StructV flds)))"
    if h: "\<forall>fld \<in> set flds. tagged fld \<longrightarrow> Val fld = StringV []"
  proof -
    have "\<forall>fld \<in> set flds. \<not> (tagged fld \<and> settable_string True fld)"
      using h settable_string_empty by blast
    then show ?thesis
      by (simp add: EncryptStruct_ptr DecryptStruct_ptr tag_walk_noop)
  qed
  have name_mode: "EncryptFields s r (PtrV (Some (StructV flds))) ns = Return (None, PtrV (Some (StructV flds)), r) \<and>
      DecryptFields s (PtrV (Some (StructV flds))) ns = Return (None, PtrV (Some (StructV flds)))"
    if h: "\<forall>n \<in> set ns. \<forall>i. index_of n (map Name flds) = Some i \<longrightarrow> Val (flds ! i) = StringV []"
  proof -
    have "\<forall>n \<in> set ns. name_skipped True flds n"
      using h settable_string_empty by (auto simp: name_skipped_def split: option.splits)
    then show ?thesis
      by (simp add: EncryptFields_ptr DecryptFields_ptr name_walk_noop)
  qed
  show ?thesis
    by (intro conjI impI core [THEN conjunct1] core [THEN conjunct2, THEN conjunct1]
          core [THEN conjunct2, THEN conjunct2, THEN conjunct1]
          core [THEN conjunct2, THEN conjunct2, THEN conjunct2]
          enc dec encn decn tag_mode [THEN conjunct1] tag_mode [THEN conjunct2]
          name_mode [THEN conjunct1] name_mode [THEN conjunct2])
qed

theorem empty_value_noop_witness:
  "Encrypt sample_service sample_reader [] = (Inr [], sample_reader) \<and>
   Decrypt sample_service [] = Inr [] \<and>
   EncryptStruct sample_service sample_reader empty_record = Return (None, empty_record, sample_reader) \<and>
   DecryptStruct sample_service empty_record = Return (None, empty_record) \<and>
   EncryptFields sample_service sample_reader empty_record [''Email''] =
     Return (None, empty_record, sample_reader) \<and>
   DecryptFields sample_service empty_record [''Email''] = Return (None, empty_record) \<and>
   (\<exists>e flds' r'.
      EncryptStruct sample_service sample_reader (PtrV (Some (StructV mixed_fields))) =
        Return (e, PtrV (Some (StructV flds')), r') \<and>
      flds' ! 1 = SField ''Phone'' [(''encrypt'', ''true'')] (StringV []))"
proof -
  let ?flds = "[SField ''Name'' [(''json'', ''name'')] (StringV ''Alice''),
        SField ''Email'' [(''json'', ''email''), (''encrypt'', ''true'')] (StringV [])]"
  note t = empty_value_noop [of sample_service sample_reader ?flds "[''Email'']"]
  have a: "\<forall>fld \<in> set ?flds. tagged fld \<longrightarrow> Val fld = StringV []"
    by (simp add: tagged_def Tag_Get_def)
  have b: "\<forall>n \<in> set [''Email'']. \<forall>i. index_of n (map Name ?flds) = Some i \<longrightarrow> Val (?flds ! i) = StringV []"
    by simp
  have first: "Encrypt sample_service sample_reader [] = (Inr [], sample_reader) \<and>
   Decrypt sample_service [] = Inr [] \<and>
   EncryptStruct sample_service sample_reader empty_record = Return (None, empty_record, sample_reader) \<and>
   DecryptStruct sample_service empty_record = Return (None, empty_record) \<and>
   EncryptFields sample_service sample_reader empty_record [''Email''] =
     Return (None, empty_record, sample_reader) \<and>
   DecryptFields sample_service empty_record [''Email''] = Return (None, empty_record)"
    using t a b unfolding empty_record_def by blast
  from empty_value_noop [of sample_service sample_reader mixed_fields "[]"]
  obtain e flds' r' where
    c: "EncryptStruct sample_service sample_reader (PtrV (Some (StructV mixed_fields))) =
          Return (e, PtrV (Some (StructV flds')), r')"
    and d: "\<forall>i < length mixed_fields. Val (mixed_fields ! i) = StringV [] \<longrightarrow> flds' ! i = mixed_fields ! i"
    by (elim exE conjE)
  have "flds' ! 1 = SField ''Phone'' [(''encrypt'', ''true'')] (StringV [])"
    using d [rule_format, of 1] by (simp add: mixed_fields_def)
  then show ?thesis
    using first c by blast
qed

section \<open>Errors of decryption, nonces, key lengths\<close>

text \<open>
  C4. For every non-empty input, \<^verbatim>\<open>Decrypt\<close> fails with \<^verbatim>\<open>ErrInvalidData\<close> exactly when
  the input is not valid standard base64 or decodes to fewer bytes than the nonce size;
  it fails with \<^verbatim>\<open>ErrDecryptionFailed\<close> exactly when the input decodes to at least a
  nonce and the authenticated open of the rest under that nonce fails; and it returns a
  plaintext only when that open succeeded, namely the opened bytes. The same holds for
  \<^verbatim>\<open>DecryptBytes\<close> on the raw bytes. So the two error kinds are never swapped.
\<close>

theorem decrypt_error_kinds:
  assumes "c \<noteq> []"
  shows "(Decrypt s c = Inl ErrInvalidData \<longleftrightarrow>
            (case base64_DecodeString c of
               None \<Rightarrow> True
             | Some d \<Rightarrow> length d < NonceSize (gcm s))) \<and>
         (Decrypt s c = Inl ErrDecryptionFailed \<longleftrightarrow>
            (case base64_DecodeString c of
               None \<Rightarrow> False
             | Some d \<Rightarrow>
                 NonceSize (gcm s) \<le> length d \<and>
                 Open (gcm s) [] (take (NonceSize (gcm s)) d) (drop (NonceSize (gcm s)) d) [] = None)) \<and>
         (\<forall>p. Decrypt s c = Inr p \<longleftrightarrow>
            (case base64_DecodeString c of
               None \<Rightarrow> False
             | Some d \<Rightarrow>
                 NonceSize (gcm s) \<le> length d \<and>
                 (case Open (gcm s) [] (take (NonceSize (gcm s)) d) (drop (NonceSize (gcm s)) d) [] of
                    None \<Rightarrow> False
                  | Some b \<Rightarrow> p = string_of_bytes b))) \<and>
         (d \<noteq> [] \<longrightarrow>
            (DecryptBytes s d = Inl ErrInvalidData \<longleftrightarrow> length d < NonceSize (gcm s)) \<and>
            (DecryptBytes s d = Inl ErrDecryptionFailed \<longleftrightarrow>
               NonceSize (gcm s) \<le> length d \<and>
               Open (gcm s) [] (take (NonceSize (gcm s)) d) (drop (NonceSize (gcm s)) d) [] = None))"
  using assms
  by (auto simp: Decrypt_def DecryptBytes_def Let_def split: option.splits)

theorem decrypt_error_kinds_witness:
  "Decrypt sample_service ''not-base64!!'' = Inl ErrInvalidData \<and>
   Decrypt sample_service ''AQID'' = Inl ErrInvalidData \<and>
   Decrypt sample_service ''BwcHBwcHBwcHBwcHREVmZmZmZmZmZmZmZmZmZmZn'' = Inl ErrDecryptionFailed \<and>
   Decrypt sample_service ''BwcHBwcHBwcHBwcHREVmZmZmZmZmZmZmZmZmZmZm'' = Inr ''hi'' \<and>
   DecryptBytes sample_service [1, 2, 3] = Inl ErrInvalidData"
proof -
  have a: "base64_DecodeString ''not-base64!!'' = None"
    by (simp add: base64_DecodeString_def decodeMap_def encodeStd_def padChar_def)
  have b: "base64_DecodeString ''AQID'' = Some [1, 2, 3]"
    by (simp add: base64_DecodeString_def decodeMap_def encodeStd_def padChar_def)
  have n: "NonceSize (gcm sample_service) = 12"
    by (simp add: NonceSize_def sample_service_def sample_aead_def)
  have c: "base64_DecodeString ''BwcHBwcHBwcHBwcHREVmZmZmZmZmZmZmZmZmZmZn'' =
      Some [7, 7, 7, 7, 7, 7, 7, 7, 7, 7, 7, 7, 68, 69,
            102, 102, 102, 102, 102, 102, 102, 102, 102, 102, 102, 102, 102, 102, 102, 103]"
    by (simp add: base64_DecodeString_def decodeMap_def encodeStd_def padChar_def)
  have d: "base64_DecodeString ''BwcHBwcHBwcHBwcHREVmZmZmZmZmZmZmZmZmZmZm'' =
      Some [7, 7, 7, 7, 7, 7, 7, 7, 7, 7, 7, 7, 68, 69,
            102, 102, 102, 102, 102, 102, 102, 102, 102, 102, 102, 102, 102, 102, 102, 102]"
    by (simp add: base64_DecodeString_def decodeMap_def encodeStd_def padChar_def)
  have oc: "Open (gcm sample_service) [] [7, 7, 7, 7, 7, 7, 7, 7, 7, 7, 7, 7]
       [68, 69, 102, 102, 102, 102, 102, 102, 102, 102, 102, 102, 102, 102, 102, 102, 102, 103] [] = None"
    by (simp add: Open_def sample_service_def sample_aead_def sample_tag_def sample_key_def Let_def)
  have od: "Open (gcm sample_service) [] [7, 7, 7, 7, 7, 7, 7, 7, 7, 7, 7, 7]
       [68, 69, 102, 102, 102, 102, 102, 102, 102, 102, 102, 102, 102, 102, 102, 102, 102, 102] [] =
       Some [104, 105]"
    by (simp add: Open_def sample_service_def sample_aead_def sample_tag_def sample_key_def Let_def)
  have "bytes_of_string ''hi'' = [104, 105]"
    by (simp add: bytes_of_string_def)
  then have s: "string_of_bytes [104, 105] = ''hi''"
    using string_bytes_roundtrip [of "''hi''"] by simp
  show ?thesis
    using decrypt_error_kinds [of "''not-base64!!''" sample_service "[1, 2, 3]"]
      decrypt_error_kinds [of "''AQID''" sample_service]
      decrypt_error_kinds [of "''BwcHBwcHBwcHBwcHREVmZmZmZmZmZmZmZmZmZmZn''" sample_service]
      decrypt_error_kinds [of "''BwcHBwcHBwcHBwcHREVmZmZmZmZmZmZmZmZmZmZm''" sample_service]
    by (simp add: a b c d n oc od s)
qed




text \<open>
  C2. \<^verbatim>\<open>NewService\<close> fails for a key that is not 16, 24 or 32 bytes long, but with the
  error of \<^verbatim>\<open>aes.NewCipher\<close>, \<^verbatim>\<open>aes.KeySizeError\<close>, and not with the package's
  \<^verbatim>\<open>ErrInvalidKeyLength\<close>: here for a key of 15 bytes.
\<close>

theorem NewService_short_key:
  "NewService aes_gcm [0, 0, 0, 0, 0, 0, 0, 0, 0, 0, 0, 0, 0, 0, 0] = Inl (KeySizeError 15) \<and>
   NewService aes_gcm [0, 0, 0, 0, 0, 0, 0, 0, 0, 0, 0, 0, 0, 0, 0] \<noteq> Inl ErrInvalidKeyLength"
  by (simp add: NewService_result)

lemma sample_exported: "IsExported ''Email''" "IsExported ''Name''" "IsExported ''Profile''"
  "IsExported ''Account''"
  by (simp_all add: IsExported_def)

section \<open>The record transformer\<close>

text \<open>
  C3, as the spec states it, fails: \<^verbatim>\<open>EncryptStruct\<close> and \<^verbatim>\<open>DecryptStruct\<close> do not recurse
  into nested composites. A tagged, non-empty string field one level or two levels deep
  in the record is left as it was and nothing is drawn from the random reader, whereas
  the same field at the top level is encrypted.
\<close>

theorem nested_not_transformed:
  "EncryptStruct sample_service sample_reader nested_one = Return (None, nested_one, sample_reader) \<and>
   EncryptStruct sample_service sample_reader nested_two = Return (None, nested_two, sample_reader) \<and>
   DecryptStruct sample_service nested_one = Return (None, nested_one) \<and>
   DecryptStruct sample_service nested_two = Return (None, nested_two) \<and>
   EncryptStruct sample_service sample_reader flat_record =
     Return (None,
       PtrV (Some (StructV
         [SField ''Name'' [] (StringV ''Alice''),
          SField ''Email'' [(''encrypt'', ''true'')]
            (StringV ''BwcHBwcHBwcHBwcHREVmZmZmZmZmZmZmZmZmZmZm'')])), [])"
  by (simp add: nested_one_def nested_two_def flat_record_def EncryptStruct_ptr DecryptStruct_ptr
        tagged_def Tag_Get_def settable_string_def sample_exported field_string_def
        set_string_def sample_Encrypt)

text \<open>
  C3, amended. The tag-driven transform visits the top-level fields only: in both
  directions a field that is itself a nested composite (a struct or a pointer) is left
  exactly as it was, whatever tagged fields it contains, so a tagged string field inside
  a nested composite is left untransformed, identically whether it sits one level or
  two levels deep; a record all of whose fields are nested composites comes back
  unchanged with \<^verbatim>\<open>nil\<close>.
\<close>

theorem nested_untouched:
  "(\<exists>e flds' r'.
      EncryptStruct s r (PtrV (Some (StructV flds))) = Return (e, PtrV (Some (StructV flds')), r') \<and>
      length flds' = length flds \<and>
      (\<forall>i < length flds. kind_of (Val (flds ! i)) = reflect_Struct \<or> kind_of (Val (flds ! i)) = reflect_Ptr \<longrightarrow> flds' ! i = flds ! i)) \<and>
   (\<exists>e flds'.
      DecryptStruct s (PtrV (Some (StructV flds))) = Return (e, PtrV (Some (StructV flds'))) \<and>
      length flds' = length flds \<and>
      (\<forall>i < length flds. kind_of (Val (flds ! i)) = reflect_Struct \<or> kind_of (Val (flds ! i)) = reflect_Ptr \<longrightarrow> flds' ! i = flds ! i)) \<and>
   ((\<forall>fld \<in> set flds. kind_of (Val fld) = reflect_Struct \<or> kind_of (Val fld) = reflect_Ptr) \<longrightarrow>
      EncryptStruct s r (PtrV (Some (StructV flds))) = Return (None, PtrV (Some (StructV flds)), r) \<and>
      DecryptStruct s (PtrV (Some (StructV flds))) = Return (None, PtrV (Some (StructV flds))))"
proof -
  have ns: "\<not> settable_string w fld"
    if "kind_of (Val fld) = reflect_Struct \<or> kind_of (Val fld) = reflect_Ptr" for w fld
    using that by (cases "Val fld") (simp_all add: settable_string_def)
  have walk: "length flds' = length flds \<and>
      (\<forall>i < length flds. kind_of (Val (flds ! i)) = reflect_Struct \<or> kind_of (Val (flds ! i)) = reflect_Ptr \<longrightarrow> flds' ! i = flds ! i)"
    if "tag_walk f True flds st = (e, flds', st')" for f :: "'st \<Rightarrow> string \<Rightarrow> (error + string) \<times> 'st"
      and st e flds' st'
    using tag_walk_length [OF that] tag_walk_frame [OF that] ns by blast
  have enc: "\<exists>e flds' r'.
      EncryptStruct s r (PtrV (Some (StructV flds))) = Return (e, PtrV (Some (StructV flds')), r') \<and>
      length flds' = length flds \<and>
      (\<forall>i < length flds. kind_of (Val (flds ! i)) = reflect_Struct \<or> kind_of (Val (flds ! i)) = reflect_Ptr \<longrightarrow> flds' ! i = flds ! i)"
  proof (cases "tag_walk (Encrypt s) True flds r")
    case (fields e flds' r')
    show ?thesis
      using walk [OF fields] by (simp add: EncryptStruct_ptr fields)
  qed
  have dec: "\<exists>e flds'.
      DecryptStruct s (PtrV (Some (StructV flds))) = Return (e, PtrV (Some (StructV flds'))) \<and>
      length flds' = length flds \<and>
      (\<forall>i < length flds. kind_of (Val (flds ! i)) = reflect_Struct \<or> kind_of (Val (flds ! i)) = reflect_Ptr \<longrightarrow> flds' ! i = flds ! i)"
  proof (cases "tag_walk (decrypt_op s) True flds ()")
    case (fields e flds' u)
    show ?thesis
      using walk [OF fields] by (simp add: DecryptStruct_ptr fields)
  qed
  have none: "EncryptStruct s r (PtrV (Some (StructV flds))) = Return (None, PtrV (Some (StructV flds)), r) \<and>
      DecryptStruct s (PtrV (Some (StructV flds))) = Return (None, PtrV (Some (StructV flds)))"
    if "\<forall>fld \<in> set flds. kind_of (Val fld) = reflect_Struct \<or> kind_of (Val fld) = reflect_Ptr"
  proof -
    have "\<forall>fld \<in> set flds. \<not> (tagged fld \<and> settable_string True fld)"
      using that ns by blast
    then show ?thesis
      by (simp add: EncryptStruct_ptr DecryptStruct_ptr tag_walk_noop)
  qed
  show ?thesis
    using enc dec none by blast
qed

theorem nested_untouched_witness:
  "\<exists>e flds' r'.
      EncryptStruct sample_service sample_reader nested_one =
        Return (e, PtrV (Some (StructV flds')), r') \<and>
      length flds' = 2 \<and>
      flds' ! 1 = SField ''Profile'' []
          (StructV [SField ''Email'' [(''encrypt'', ''true'')] (StringV ''hi'')])"
proof -
  let ?flds = "[SField ''Name'' [] (StringV ''Alice''),
        SField ''Profile'' []
          (StructV [SField ''Email'' [(''encrypt'', ''true'')] (StringV ''hi'')])]"
  from nested_untouched [of sample_service sample_reader ?flds]
  obtain e flds' r' where
    a: "EncryptStruct sample_service sample_reader (PtrV (Some (StructV ?flds))) =
          Return (e, PtrV (Some (StructV flds')), r')"
    and b: "length flds' = length ?flds"
    and c: "\<forall>i < length ?flds. kind_of (Val (?flds ! i)) = reflect_Struct \<or>
              kind_of (Val (?flds ! i)) = reflect_Ptr \<longrightarrow> flds' ! i = ?flds ! i"
    by (elim exE conjE)
  have "flds' ! 1 = ?flds ! 1"
    using c [rule_format, of 1] by simp
  then show ?thesis
    using a b by (simp add: nested_one_def)
qed

lemma EncryptStruct_returns: "\<exists>e v' r'. EncryptStruct s r v = Return (e, v', r')"
proof (cases "is_struct_arg v")
  case False
  then show ?thesis by (simp add: EncryptStruct_other)
next
  case True
  then consider flds where "v = StructV flds" | flds where "v = PtrV (Some (StructV flds))"
    by (auto simp: is_struct_arg_def split: gvalue.splits option.splits)
  then show ?thesis
    by cases (auto simp: EncryptStruct_struct EncryptStruct_ptr split: prod.splits)
qed

lemma DecryptStruct_returns: "\<exists>e v'. DecryptStruct s v = Return (e, v')"
proof (cases "is_struct_arg v")
  case False
  then show ?thesis by (simp add: DecryptStruct_other)
next
  case True
  then consider flds where "v = StructV flds" | flds where "v = PtrV (Some (StructV flds))"
    by (auto simp: is_struct_arg_def split: gvalue.splits option.splits)
  then show ?thesis
    by cases (auto simp: DecryptStruct_struct DecryptStruct_ptr split: prod.splits)
qed

text \<open>
  C10. \<^verbatim>\<open>EncryptStruct\<close> and \<^verbatim>\<open>DecryptStruct\<close> never panic, and given a value that is
  neither a struct nor a pointer to a struct they return \<^verbatim>\<open>nil\<close> without effect.
  \<^verbatim>\<open>EncryptFields\<close> and \<^verbatim>\<open>DecryptFields\<close> lack the guard: on such a value they panic in
  \<^verbatim>\<open>FieldByName\<close> as soon as the list of names is not empty (and return \<^verbatim>\<open>nil\<close> when it
  is empty).
\<close>

theorem struct_guard:
  "EncryptStruct s r v \<noteq> Panic \<and> DecryptStruct s v \<noteq> Panic \<and>
   (\<not> is_struct_arg v \<longrightarrow>
      EncryptStruct s r v = Return (None, v, r) \<and> DecryptStruct s v = Return (None, v) \<and>
      EncryptFields s r v [] = Return (None, v, r) \<and> DecryptFields s v [] = Return (None, v) \<and>
      EncryptFields s r v (n # ns) = Panic \<and> DecryptFields s v (n # ns) = Panic)"
  using EncryptStruct_returns [of s r v] DecryptStruct_returns [of s v]
  by (auto simp: EncryptStruct_other DecryptStruct_other EncryptFields_other DecryptFields_other)

theorem struct_guard_witness:
  "EncryptStruct sample_service sample_reader (IntV 5) = Return (None, IntV 5, sample_reader) \<and>
   DecryptStruct sample_service (StringV ''x'') = Return (None, StringV ''x'') \<and>
   EncryptFields sample_service sample_reader (IntV 5) [''Email''] = Panic \<and>
   DecryptFields sample_service (StringV ''x'') [''Email''] = Panic \<and>
   EncryptFields sample_service sample_reader (PtrV None) [''Email''] = Panic \<and>
   DecryptFields sample_service NilV [''Email'', ''Phone''] = Panic"
  using struct_guard [of sample_service sample_reader "IntV 5" "''Email''" "[]"]
    struct_guard [of sample_service sample_reader "StringV ''x''" "''Email''" "[]"]
    struct_guard [of sample_service sample_reader "PtrV None" "''Email''" "[]"]
    struct_guard [of sample_service sample_reader NilV "''Email''" "[''Phone'']"]
  by (simp add: is_struct_arg_def)







lemma sample_Decrypt:
  "Decrypt sample_service ''BwcHBwcHBwcHBwcHREVmZmZmZmZmZmZmZmZmZmZm'' = Inr ''hi''"
proof -
  have c: "aead_contract (gcm sample_service)"
    by (simp add: sample_service_def sample_aead_contract)
  have n: "length sample_reader = NonceSize (gcm sample_service)"
    by (simp add: NonceSize_def sample_service_def sample_aead_def sample_reader_def)
  have "''BwcHBwcHBwcHBwcHREVmZmZmZmZmZmZmZmZmZmZm'' =
      base64_EncodeToString (sample_reader @
        aead_seal (gcm sample_service) sample_reader (bytes_of_string ''hi'') [])"
    using Encrypt_Inr [OF sample_Encrypt] n by simp
  then show ?thesis
    using Decrypt_sealed [OF c n, of "''hi''"] by simp
qed


lemma tag_walk_fail:
  assumes "tag_walk f w pre st = (None, pre', st1)"
    and "tagged fld" "settable_string w fld" "f st1 (field_string fld) = (Inl err, st2)"
  shows "tag_walk f w (pre @ fld # post) st = (Some err, pre' @ fld # post, st2)"
  using assms by (simp add: tag_walk_append)

lemma name_walk_fail:
  assumes "name_walk f w flds ns st = (None, flds1, st1)"
    and "index_of n (map Name flds1) = Some i" "settable_string w (flds1 ! i)"
    and "f st1 (field_string (flds1 ! i)) = (Inl err, st2)"
  shows "name_walk f w flds (ns @ n # ms) st = (Some err, flds1, st2)"
  using assms by (simp add: name_walk_append)

lemma settable_stringI:
  "IsExported (Name fld) \<Longrightarrow> Val fld = StringV p \<Longrightarrow> p \<noteq> [] \<Longrightarrow>
     settable_string True fld \<and> field_string fld = p"
  by (simp add: settable_string_def field_string_def)

text \<open>
  C6. When \<^verbatim>\<open>Encrypt\<close> or \<^verbatim>\<open>Decrypt\<close> fails on a field, the tag-driven and the
  name-driven transforms stop and return that very error; the fields processed before
  the failing one stay as the transform left them (\<open>pre'\<close>, \<open>flds1\<close>: the result of
  the call on the fields, or names, before the failing one), and the failing field and
  everything after it are untouched.
\<close>

theorem abort_on_first_error:
  "(EncryptStruct s r (PtrV (Some (StructV pre))) = Return (None, PtrV (Some (StructV pre')), r1) \<and>
    Tag_Get (Tag fld) ''encrypt'' = ''true'' \<and> IsExported (Name fld) \<and>
    Val fld = StringV p \<and> p \<noteq> [] \<and> Encrypt s r1 p = (Inl err, r2) \<longrightarrow>
      EncryptStruct s r (PtrV (Some (StructV (pre @ fld # post)))) =
        Return (Some err, PtrV (Some (StructV (pre' @ fld # post))), r2)) \<and>
   (DecryptStruct s (PtrV (Some (StructV pre))) = Return (None, PtrV (Some (StructV pre'))) \<and>
    Tag_Get (Tag fld) ''encrypt'' = ''true'' \<and> IsExported (Name fld) \<and>
    Val fld = StringV p \<and> p \<noteq> [] \<and> Decrypt s p = Inl err \<longrightarrow>
      DecryptStruct s (PtrV (Some (StructV (pre @ fld # post)))) =
        Return (Some err, PtrV (Some (StructV (pre' @ fld # post))))) \<and>
   (EncryptFields s r (PtrV (Some (StructV flds))) ns = Return (None, PtrV (Some (StructV flds1)), r1) \<and>
    index_of n (map Name flds1) = Some i \<and> IsExported n \<and>
    Val (flds1 ! i) = StringV p \<and> p \<noteq> [] \<and> Encrypt s r1 p = (Inl err, r2) \<longrightarrow>
      EncryptFields s r (PtrV (Some (StructV flds))) (ns @ n # ms) =
        Return (Some err, PtrV (Some (StructV flds1)), r2)) \<and>
   (DecryptFields s (PtrV (Some (StructV flds))) ns = Return (None, PtrV (Some (StructV flds1))) \<and>
    index_of n (map Name flds1) = Some i \<and> IsExported n \<and>
    Val (flds1 ! i) = StringV p \<and> p \<noteq> [] \<and> Decrypt s p = Inl err \<longrightarrow>
      DecryptFields s (PtrV (Some (StructV flds))) (ns @ n # ms) =
        Return (Some err, PtrV (Some (StructV flds1))))"
proof (intro conjI impI)
  assume h: "EncryptStruct s r (PtrV (Some (StructV pre))) = Return (None, PtrV (Some (StructV pre')), r1) \<and>
    Tag_Get (Tag fld) ''encrypt'' = ''true'' \<and> IsExported (Name fld) \<and>
    Val fld = StringV p \<and> p \<noteq> [] \<and> Encrypt s r1 p = (Inl err, r2)"
  then have w: "tag_walk (Encrypt s) True pre r = (None, pre', r1)"
    by (auto simp: EncryptStruct_ptr split: prod.splits)
  have "tag_walk (Encrypt s) True (pre @ fld # post) r = (Some err, pre' @ fld # post, r2)"
    using h settable_stringI [of fld p]
    by (intro tag_walk_fail [OF w]) (simp_all add: tagged_def)
  then show "EncryptStruct s r (PtrV (Some (StructV (pre @ fld # post)))) =
        Return (Some err, PtrV (Some (StructV (pre' @ fld # post))), r2)"
    by (simp add: EncryptStruct_ptr)
next
  assume h: "DecryptStruct s (PtrV (Some (StructV pre))) = Return (None, PtrV (Some (StructV pre'))) \<and>
    Tag_Get (Tag fld) ''encrypt'' = ''true'' \<and> IsExported (Name fld) \<and>
    Val fld = StringV p \<and> p \<noteq> [] \<and> Decrypt s p = Inl err"
  then have w: "tag_walk (decrypt_op s) True pre () = (None, pre', ())"
    by (auto simp: DecryptStruct_ptr split: prod.splits)
  have "tag_walk (decrypt_op s) True (pre @ fld # post) () = (Some err, pre' @ fld # post, ())"
    using h settable_stringI [of fld p]
    by (intro tag_walk_fail [OF w]) (simp_all add: tagged_def decrypt_op_def)
  then show "DecryptStruct s (PtrV (Some (StructV (pre @ fld # post)))) =
        Return (Some err, PtrV (Some (StructV (pre' @ fld # post))))"
    by (simp add: DecryptStruct_ptr)
next
  assume h: "EncryptFields s r (PtrV (Some (StructV flds))) ns = Return (None, PtrV (Some (StructV flds1)), r1) \<and>
    index_of n (map Name flds1) = Some i \<and> IsExported n \<and>
    Val (flds1 ! i) = StringV p \<and> p \<noteq> [] \<and> Encrypt s r1 p = (Inl err, r2)"
  then have w: "name_walk (Encrypt s) True flds ns r = (None, flds1, r1)"
    by (auto simp: EncryptFields_ptr split: prod.splits)
  have nm: "Name (flds1 ! i) = n"
    using h index_of_Some [of n "map Name flds1" i] by auto
  have "name_walk (Encrypt s) True flds (ns @ n # ms) r = (Some err, flds1, r2)"
    using h nm settable_stringI [of "flds1 ! i" p]
    by (intro name_walk_fail [OF w, of n i]) simp_all
  then show "EncryptFields s r (PtrV (Some (StructV flds))) (ns @ n # ms) =
        Return (Some err, PtrV (Some (StructV flds1)), r2)"
    by (simp add: EncryptFields_ptr)
next
  assume h: "DecryptFields s (PtrV (Some (StructV flds))) ns = Return (None, PtrV (Some (StructV flds1))) \<and>
    index_of n (map Name flds1) = Some i \<and> IsExported n \<and>
    Val (flds1 ! i) = StringV p \<and> p \<noteq> [] \<and> Decrypt s p = Inl err"
  then have w: "name_walk (decrypt_op s) True flds ns () = (None, flds1, ())"
    by (auto simp: DecryptFields_ptr split: prod.splits)
  have nm: "Name (flds1 ! i) = n"
    using h index_of_Some [of n "map Name flds1" i] by auto
  have "name_walk (decrypt_op s) True flds (ns @ n # ms) () = (Some err, flds1, ())"
    using h nm settable_stringI [of "flds1 ! i" p]
    by (intro name_walk_fail [OF w, of n i]) (simp_all add: decrypt_op_def)
  then show "DecryptFields s (PtrV (Some (StructV flds))) (ns @ n # ms) =
        Return (Some err, PtrV (Some (StructV flds1)))"
    by (simp add: DecryptFields_ptr)
qed

lemma sample_Decrypt_malformed: "Decrypt sample_service ''not-base64!!'' = Inl ErrInvalidData"
  by (simp add: Decrypt_def base64_DecodeString_def decodeMap_def encodeStd_def padChar_def)

lemma sample_Encrypt_exhausted:
  "Encrypt sample_service [] ''+15550100'' = (Inl ErrEncryptionFailed, [])"
  by (simp add: Encrypt_def io_ReadFull_def NonceSize_def sample_service_def sample_aead_def)

theorem abort_on_first_error_witness:
  "EncryptStruct sample_service sample_reader (PtrV (Some (StructV fresh_fields))) =
     Return (Some ErrEncryptionFailed,
       PtrV (Some (StructV
         [SField ''Email'' [(''encrypt'', ''true'')] (StringV ''BwcHBwcHBwcHBwcHREVmZmZmZmZmZmZmZmZmZmZm''),
          SField ''Phone'' [(''encrypt'', ''true'')] (StringV ''+15550100''),
          SField ''Address'' [(''encrypt'', ''true'')] (StringV ''1 Main St'')])), []) \<and>
   DecryptStruct sample_service (PtrV (Some (StructV stored_fields))) =
     Return (Some ErrInvalidData,
       PtrV (Some (StructV
         [SField ''Email'' [(''encrypt'', ''true'')] (StringV ''hi''),
          SField ''Phone'' [(''encrypt'', ''true'')] (StringV ''not-base64!!''),
          SField ''Address'' [(''encrypt'', ''true'')] (StringV ''BwcHBwcHBwcHBwcHREVmZmZmZmZmZmZmZmZmZmZm'')]))) \<and>
   EncryptFields sample_service sample_reader (PtrV (Some (StructV fresh_fields)))
       [''Email'', ''Phone'', ''Address''] =
     Return (Some ErrEncryptionFailed,
       PtrV (Some (StructV
         [SField ''Email'' [(''encrypt'', ''true'')] (StringV ''BwcHBwcHBwcHBwcHREVmZmZmZmZmZmZmZmZmZmZm''),
          SField ''Phone'' [(''encrypt'', ''true'')] (StringV ''+15550100''),
          SField ''Address'' [(''encrypt'', ''true'')] (StringV ''1 Main St'')])), []) \<and>
   DecryptFields sample_service (PtrV (Some (StructV stored_fields)))
       [''Email'', ''Phone'', ''Address''] =
     Return (Some ErrInvalidData,
       PtrV (Some (StructV
         [SField ''Email'' [(''encrypt'', ''true'')] (StringV ''hi''),
          SField ''Phone'' [(''encrypt'', ''true'')] (StringV ''not-base64!!''),
          SField ''Address'' [(''encrypt'', ''true'')] (StringV ''BwcHBwcHBwcHBwcHREVmZmZmZmZmZmZmZmZmZmZm'')])))"
proof -
  let ?c = "''BwcHBwcHBwcHBwcHREVmZmZmZmZmZmZmZmZmZmZm''"
  let ?t = "[(''encrypt'', ''true'')]"
  have x: "IsExported ''Email''" "IsExported ''Phone''" "IsExported ''Address''"
    by (simp_all add: IsExported_def)
  have e1: "EncryptStruct sample_service sample_reader
        (PtrV (Some (StructV [SField ''Email'' ?t (StringV ''hi'')]))) =
      Return (None, PtrV (Some (StructV [SField ''Email'' ?t (StringV ?c)])), [])"
    by (simp add: EncryptStruct_ptr tagged_def Tag_Get_def settable_string_def x field_string_def
          set_string_def sample_Encrypt)
  have d1: "DecryptStruct sample_service (PtrV (Some (StructV [SField ''Email'' ?t (StringV ?c)]))) =
      Return (None, PtrV (Some (StructV [SField ''Email'' ?t (StringV ''hi'')])))"
    by (simp add: DecryptStruct_ptr tagged_def Tag_Get_def settable_string_def x field_string_def
          set_string_def sample_Decrypt decrypt_op_def)
  have e2: "EncryptFields sample_service sample_reader (PtrV (Some (StructV fresh_fields))) [''Email''] =
      Return (None, PtrV (Some (StructV
         [SField ''Email'' ?t (StringV ?c),
          SField ''Phone'' ?t (StringV ''+15550100''),
          SField ''Address'' ?t (StringV ''1 Main St'')])), [])"
    by (simp add: EncryptFields_ptr fresh_fields_def settable_string_def x field_string_def
          set_string_def sample_Encrypt)
  have d2: "DecryptFields sample_service (PtrV (Some (StructV stored_fields))) [''Email''] =
      Return (None, PtrV (Some (StructV
         [SField ''Email'' ?t (StringV ''hi''),
          SField ''Phone'' ?t (StringV ''not-base64!!''),
          SField ''Address'' ?t (StringV ?c)])))"
    by (simp add: DecryptFields_ptr stored_fields_def settable_string_def x field_string_def
          set_string_def sample_Decrypt decrypt_op_def)
  note t1 = abort_on_first_error [of sample_service sample_reader
      "[SField ''Email'' ?t (StringV ''hi'')]" "[SField ''Email'' ?t (StringV ?c)]" "[]"
      "SField ''Phone'' ?t (StringV ''+15550100'')" "''+15550100''" ErrEncryptionFailed "[]"
      "[SField ''Address'' ?t (StringV ''1 Main St'')]"
      fresh_fields "[''Email'']"
      "[SField ''Email'' ?t (StringV ?c), SField ''Phone'' ?t (StringV ''+15550100''),
        SField ''Address'' ?t (StringV ''1 Main St'')]"
      "''Phone''" 1 "[''Address'']"]
  note t2 = abort_on_first_error [of sample_service sample_reader
      "[SField ''Email'' ?t (StringV ?c)]" "[SField ''Email'' ?t (StringV ''hi'')]" "[]"
      "SField ''Phone'' ?t (StringV ''not-base64!!'')" "''not-base64!!''" ErrInvalidData "[]"
      "[SField ''Address'' ?t (StringV ?c)]"
      stored_fields "[''Email'']"
      "[SField ''Email'' ?t (StringV ''hi''), SField ''Phone'' ?t (StringV ''not-base64!!''),
        SField ''Address'' ?t (StringV ?c)]"
      "''Phone''" 1 "[''Address'']"]
  have a: "EncryptStruct sample_service sample_reader (PtrV (Some (StructV fresh_fields))) =
     Return (Some ErrEncryptionFailed,
       PtrV (Some (StructV
         [SField ''Email'' ?t (StringV ?c), SField ''Phone'' ?t (StringV ''+15550100''),
          SField ''Address'' ?t (StringV ''1 Main St'')])), [])"
    using t1 e1 sample_Encrypt_exhausted x by (simp add: fresh_fields_def Tag_Get_def)
  have b: "EncryptFields sample_service sample_reader (PtrV (Some (StructV fresh_fields)))
       [''Email'', ''Phone'', ''Address''] =
     Return (Some ErrEncryptionFailed,
       PtrV (Some (StructV
         [SField ''Email'' ?t (StringV ?c), SField ''Phone'' ?t (StringV ''+15550100''),
          SField ''Address'' ?t (StringV ''1 Main St'')])), [])"
    using t1 e2 sample_Encrypt_exhausted x by simp
  have c: "DecryptStruct sample_service (PtrV (Some (StructV stored_fields))) =
     Return (Some ErrInvalidData,
       PtrV (Some (StructV
         [SField ''Email'' ?t (StringV ''hi''), SField ''Phone'' ?t (StringV ''not-base64!!''),
          SField ''Address'' ?t (StringV ?c)])))"
    using t2 d1 sample_Decrypt_malformed x by (simp add: stored_fields_def Tag_Get_def)
  have d: "DecryptFields sample_service (PtrV (Some (StructV stored_fields)))
       [''Email'', ''Phone'', ''Address''] =
     Return (Some ErrInvalidData,
       PtrV (Some (StructV
         [SField ''Email'' ?t (StringV ''hi''), SField ''Phone'' ?t (StringV ''not-base64!!''),
          SField ''Address'' ?t (StringV ?c)])))"
    using t2 d2 sample_Decrypt_malformed x by simp
  show ?thesis
    using a b c d by simp
qed

end
